theory Spec2Isabelle
  imports Main "HOL-Library.Log_Nat"
begin

section \<open>RoadArg: the argument parser of \<^verbatim>\<open>src/roadarg/arg.py\<close>\<close>

text \<open>
  The development embeds the class \<^verbatim>\<open>ArgParser\<close> and its dataclasses. Python objects
  become records, the dictionary \<^verbatim>\<open>result.args\<close> becomes a map, every \<^verbatim>\<open>raise\<close>
  and \<^verbatim>\<open>sys.exit\<close> becomes an \<open>Inl\<close> result, and the mutable locals of
  \<^verbatim>\<open>parse\<close> (\<^verbatim>\<open>i\<close>, \<^verbatim>\<open>pos_idx\<close>, \<^verbatim>\<open>result\<close>, \<^verbatim>\<open>collected\<close>) are passed
  explicitly. Strings are lists of characters (code points below 256).
\<close>

subsection \<open>Python values\<close>

text \<open>
  The fields \<^verbatim>\<open>default\<close> and \<^verbatim>\<open>choices\<close> are typed \<^verbatim>\<open>Any\<close>; the values that occur
  are \<^verbatim>\<open>None\<close>, booleans, integers, floats, strings and lists. A finite float
  \<open>Fin m e\<close> stands for the number \<open>m * 2 ^ e\<close>; the sign of a zero is not kept, since
  neither \<^verbatim>\<open>==\<close>, truth testing nor \<^verbatim>\<open>+ 1\<close> observes it.
\<close>

datatype pyfloat = Fin int int | FInf bool | FNaN

datatype pyval =
    VNone
  | VBool bool
  | VInt int
  | VFloat pyfloat
  | VStr string
  | VList "pyval list"

fun float_eq :: "pyfloat \<Rightarrow> pyfloat \<Rightarrow> bool" where
  "float_eq (Fin m e) (Fin n f) =
     (m * 2 ^ nat (e - min e f) = n * 2 ^ nat (f - min e f))"
| "float_eq (FInf a) (FInf b) = (a = b)"
| "float_eq _ _ = False"

fun float_eq_int :: "pyfloat \<Rightarrow> int \<Rightarrow> bool" where
  "float_eq_int (Fin m e) k =
     (if 0 \<le> e then m * 2 ^ nat e = k else m = k * 2 ^ nat (- e))"
| "float_eq_int _ k = False"

fun float_nonzero :: "pyfloat \<Rightarrow> bool" where
  "float_nonzero (Fin m e) = (m \<noteq> 0)"
| "float_nonzero _ = True"

text \<open>
  Rounding of the number \<open>M * 2 ^ E\<close> to a 53-bit significand, ties to even: what a
  float addition does with its exact result.
\<close>

definition round53 :: "int \<Rightarrow> int \<Rightarrow> pyfloat" where
  "round53 M E =
     (let n = floorlog 2 (nat \<bar>M\<bar>) in
      if n \<le> 53 then Fin M E
      else
        let k = n - 53;
            q = M div 2 ^ k;
            r = M mod 2 ^ k
        in Fin (if 2 ^ k < 2 * r \<or> (2 * r = 2 ^ k \<and> odd q) then q + 1 else q)
               (E + int k))"

fun float_add_one :: "pyfloat \<Rightarrow> pyfloat" where
  "float_add_one (Fin m e) =
     (let E = min e 0 in round53 (m * 2 ^ nat (e - E) + 2 ^ nat (- E)) E)"
| "float_add_one x = x"

text \<open>Python's \<^verbatim>\<open>==\<close>: booleans are integers, numbers compare by value.\<close>

fun scalar_eq :: "pyval \<Rightarrow> pyval \<Rightarrow> bool" where
  "scalar_eq VNone VNone = True"
| "scalar_eq (VBool a) (VBool b) = (a = b)"
| "scalar_eq (VBool a) (VInt n) = (of_bool a = n)"
| "scalar_eq (VInt n) (VBool a) = (n = of_bool a)"
| "scalar_eq (VInt m) (VInt n) = (m = n)"
| "scalar_eq (VBool a) (VFloat x) = float_eq_int x (of_bool a)"
| "scalar_eq (VFloat x) (VBool a) = float_eq_int x (of_bool a)"
| "scalar_eq (VInt n) (VFloat x) = float_eq_int x n"
| "scalar_eq (VFloat x) (VInt n) = float_eq_int x n"
| "scalar_eq (VFloat x) (VFloat y) = float_eq x y"
| "scalar_eq (VStr s) (VStr t) = (s = t)"
| "scalar_eq _ _ = False"

fun py_eq :: "pyval \<Rightarrow> pyval \<Rightarrow> bool"
  and py_eq_list :: "pyval list \<Rightarrow> pyval list \<Rightarrow> bool" where
  "py_eq (VList xs) (VList ys) = py_eq_list xs ys"
| "py_eq x y = scalar_eq x y"
| "py_eq_list [] [] = True"
| "py_eq_list (x # xs) (y # ys) = (py_eq x y \<and> py_eq_list xs ys)"
| "py_eq_list _ _ = False"

text \<open>
  \<^verbatim>\<open>value in choices\<close>. Python tests identity before \<^verbatim>\<open>==\<close>; the two differ only
  for a NaN object shared between a default and a choices list, which is not modelled.
\<close>

definition py_in :: "pyval \<Rightarrow> pyval list \<Rightarrow> bool" where
  "py_in v vs = list_ex (py_eq v) vs"

text \<open>Truth value of an object, as \<^verbatim>\<open>if x:\<close> tests it.\<close>

fun truthy :: "pyval \<Rightarrow> bool" where
  "truthy VNone = False"
| "truthy (VBool b) = b"
| "truthy (VInt n) = (n \<noteq> 0)"
| "truthy (VFloat x) = float_nonzero x"
| "truthy (VStr s) = (s \<noteq> [])"
| "truthy (VList vs) = (vs \<noteq> [])"

subsection \<open>Exceptions\<close>

text \<open>
  \<^verbatim>\<open>ArgError\<close> is the only exception class of the module; its message is kept as a
  constructor with the interpolated values. \<open>ValueError\<close> and \<open>TypeError\<close> are the
  builtin exceptions raised by a conversion and by \<^verbatim>\<open>+\<close>; \<open>SystemExit\<close> is
  \<^verbatim>\<open>sys.exit\<close>.
\<close>

datatype arg_error =
    UnknownArgument string          \<comment> \<open>\<^verbatim>\<open>Unknown argument: --{key}\<close> or \<^verbatim>\<open>-{short}\<close>, with the dashes\<close>
  | OptionRequiresValue string      \<comment> \<open>\<^verbatim>\<open>Option -{short} requires a value\<close>\<close>
  | ArgumentRequiresValue string    \<comment> \<open>\<^verbatim>\<open>Argument --{name} requires a value\<close>\<close>
  | InvalidChoice pyval             \<comment> \<open>\<^verbatim>\<open>Invalid choice: {value}\<close>\<close>
  | InvalidChoiceFor string pyval   \<comment> \<open>\<^verbatim>\<open>Invalid choice for --{name}: {value}\<close>\<close>
  | RequiredArgument string         \<comment> \<open>\<^verbatim>\<open>Required argument: --{name}\<close>\<close>

datatype exn = ArgError arg_error | ValueError | TypeError | SystemExit int

text \<open>\<^verbatim>\<open>x + 1\<close>, which raises \<open>TypeError\<close> on \<^verbatim>\<open>None\<close>, a string or a list.\<close>

fun py_add_one :: "pyval \<Rightarrow> exn + pyval" where
  "py_add_one (VInt n) = Inr (VInt (n + 1))"
| "py_add_one (VBool b) = Inr (VInt (of_bool b + 1))"
| "py_add_one (VFloat x) = Inr (VFloat (float_add_one x))"
| "py_add_one v = Inl TypeError"

subsection \<open>The schema: dataclasses \<^verbatim>\<open>Arg\<close>, \<^verbatim>\<open>Positional\<close>, \<^verbatim>\<open>ParsedArgs\<close>\<close>

text \<open>
  The field \<^verbatim>\<open>type\<close> holds a class that \<^verbatim>\<open>_convert\<close> either compares with
  \<^verbatim>\<open>bool\<close> or calls on the token: it is \<open>PyBool\<close> or a callable that returns a
  value or raises.
\<close>

datatype pytype = PyBool | PyCallable "string \<Rightarrow> exn + pyval"

text \<open>The builtin \<^verbatim>\<open>str\<close>, the default of the field.\<close>

definition py_str :: pytype where
  "py_str = PyCallable (\<lambda>s. Inr (VStr s))"

text \<open>
  The builtins \<^verbatim>\<open>int\<close> and \<^verbatim>\<open>float\<close> applied to a string either return a number or
  raise \<open>ValueError\<close>. Their grammar belongs to the language, so the parse function is
  a parameter: \<open>None\<close> is a malformed literal.
\<close>

definition py_int :: "(string \<Rightarrow> int option) \<Rightarrow> pytype" where
  "py_int int_literal =
     PyCallable (\<lambda>s. case int_literal s of None \<Rightarrow> Inl ValueError | Some n \<Rightarrow> Inr (VInt n))"

definition py_float :: "(string \<Rightarrow> pyfloat option) \<Rightarrow> pytype" where
  "py_float float_literal =
     PyCallable (\<lambda>s. case float_literal s of None \<Rightarrow> Inl ValueError | Some x \<Rightarrow> Inr (VFloat x))"

record Arg =
  name :: string
  short :: string
  type :: pytype
  default :: pyval
  required :: bool
  "help" :: string
  choices :: "pyval list"
  nargs :: string
  action :: string
  dest :: string
  metavar :: string

record Positional =
  name :: string
  type :: pytype
  "help" :: string
  nargs :: string
  default :: pyval
  choices :: "pyval list"

record ParsedArgs =
  args :: "string \<rightharpoonup> pyval"
  positionals :: "pyval list"
  remaining :: "string list"

record ArgParser =
  prog :: string
  description :: string
  epilog :: string
  arguments :: "Arg list"
  positionals :: "Positional list"

text \<open>The dataclass defaults: \<^verbatim>\<open>Arg(name, short)\<close> and \<^verbatim>\<open>Positional(name)\<close>.\<close>

definition new_Arg :: "string \<Rightarrow> string \<Rightarrow> Arg" where
  "new_Arg n s =
     \<lparr>Arg.name = n, short = s, type = py_str, default = VNone, required = False,
      help = [], choices = [], nargs = [], action = ''store'', dest = [], metavar = []\<rparr>"

definition new_Positional :: "string \<Rightarrow> Positional" where
  "new_Positional n =
     \<lparr>Positional.name = n, type = py_str, help = [], nargs = [], default = VNone,
      choices = []\<rparr>"

text \<open>\<^verbatim>\<open>ParsedArgs()\<close>\<close>

definition new_ParsedArgs :: ParsedArgs where
  "new_ParsedArgs = \<lparr>args = Map.empty, positionals = [], remaining = []\<rparr>"

text \<open>\<^verbatim>\<open>d.get(k)\<close>, with \<^verbatim>\<open>None\<close> for a missing key, and \<^verbatim>\<open>d.get(k, v)\<close>.\<close>

definition dict_get :: "(string \<rightharpoonup> pyval) \<Rightarrow> string \<Rightarrow> pyval" where
  "dict_get d k = (case d k of None \<Rightarrow> VNone | Some v \<Rightarrow> v)"

definition dict_get_or :: "(string \<rightharpoonup> pyval) \<Rightarrow> string \<Rightarrow> pyval \<Rightarrow> pyval" where
  "dict_get_or d k v0 = (case d k of None \<Rightarrow> v0 | Some v \<Rightarrow> v)"

subsection \<open>Building the schema\<close>

text \<open>
  \<^verbatim>\<open>add_argument\<close> and \<^verbatim>\<open>add_positional\<close> append the dataclass instance built from
  their arguments (here the record \<open>a\<close>, \<open>p\<close>) and return the parser.
\<close>

definition add_argument :: "ArgParser \<Rightarrow> Arg \<Rightarrow> ArgParser" where
  "add_argument S a = S\<lparr>arguments := arguments S @ [a]\<rparr>"

definition add_positional :: "ArgParser \<Rightarrow> Positional \<Rightarrow> ArgParser" where
  "add_positional S p = S\<lparr>ArgParser.positionals := ArgParser.positionals S @ [p]\<rparr>"

definition add_help :: "ArgParser \<Rightarrow> ArgParser" where
  "add_help S =
     add_argument S
       ((new_Arg ''help'' ''h'')\<lparr>action := ''store_true'', Arg.help := ''Show this help message''\<rparr>)"

text \<open>\<^verbatim>\<open>ArgParser(prog, description, epilog)\<close>; \<open>argv0\<close> is \<^verbatim>\<open>sys.argv[0]\<close>.\<close>

definition ArgParser_init :: "string \<Rightarrow> string \<Rightarrow> string \<Rightarrow> string \<Rightarrow> ArgParser" where
  "ArgParser_init argv0 p d e =
     add_help \<lparr>prog = (if p \<noteq> [] then p else argv0), description = d, epilog = e,
               arguments = [], positionals = []\<rparr>"

subsection \<open>Lookup, conversion, defaults, validation\<close>

text \<open>\<^verbatim>\<open>arg.dest or arg.name\<close>\<close>

definition dest_of :: "Arg \<Rightarrow> string" where
  "dest_of a = (if dest a \<noteq> [] then dest a else Arg.name a)"

definition find_arg :: "ArgParser \<Rightarrow> string \<Rightarrow> Arg option" where
  "find_arg S n = find (\<lambda>a. Arg.name a = n \<or> dest a = n) (arguments S)"

definition find_arg_short :: "ArgParser \<Rightarrow> string \<Rightarrow> Arg option" where
  "find_arg_short S s = find (\<lambda>a. short a = s) (arguments S)"

text \<open>\<^verbatim>\<open>str.lower\<close> on code points below 256.\<close>

definition lower_char :: "char \<Rightarrow> char" where
  "lower_char c =
     (let n = of_char c :: nat in
      if (65 \<le> n \<and> n \<le> 90) \<or> (192 \<le> n \<and> n \<le> 222 \<and> n \<noteq> 215)
      then char_of (n + 32) else c)"

definition lower :: "string \<Rightarrow> string" where
  "lower s = map lower_char s"

fun convert :: "string \<Rightarrow> pytype \<Rightarrow> exn + pyval" where
  "convert v PyBool = Inr (VBool (lower v \<in> set [''true'', ''1'', ''yes'', ''on'']))"
| "convert v (PyCallable typ) = typ v"

text \<open>What \<^verbatim>\<open>_apply_defaults\<close> assigns to the destination of one flag.\<close>

definition default_value :: "Arg \<Rightarrow> pyval" where
  "default_value a =
     (if action a = ''store_true'' then VBool False
      else if action a = ''store_false'' then VBool True
      else if action a = ''count'' then VInt 0
      else Arg.default a)"

definition apply_defaults :: "ArgParser \<Rightarrow> ParsedArgs \<Rightarrow> ParsedArgs" where
  "apply_defaults S result =
     fold (\<lambda>a r. r\<lparr>args := (args r)(dest_of a \<mapsto> default_value a)\<rparr>) (arguments S) result"

fun validate_args :: "Arg list \<Rightarrow> ParsedArgs \<Rightarrow> exn + unit" where
  "validate_args [] result = Inr ()"
| "validate_args (a # as) result =
     (if required a \<and> dict_get (args result) (dest_of a) = VNone
      then Inl (ArgError (RequiredArgument (Arg.name a)))
      else validate_args as result)"

definition validate :: "ArgParser \<Rightarrow> ParsedArgs \<Rightarrow> exn + unit" where
  "validate S result = validate_args (arguments S) result"

subsection \<open>Value resolution and storage\<close>

type_synonym collected = "string \<rightharpoonup> pyval list"

definition no_value_action :: "Arg \<Rightarrow> bool" where
  "no_value_action a = (action a \<in> set [''store_true'', ''store_false'', ''count''])"

definition startswith :: "string \<Rightarrow> string \<Rightarrow> bool" where
  "startswith s p = (take (length p) s = p)"

text \<open>
  \<^verbatim>\<open>_process_arg(arg_def, args, i, value)\<close>: \<open>value\<close> is the inline text after
  \<^verbatim>\<open>=\<close>, if any. The result is the new index and the value to store.
\<close>

definition process_arg ::
  "Arg \<Rightarrow> string list \<Rightarrow> nat \<Rightarrow> string option \<Rightarrow> exn + (nat \<times> pyval)" where
  "process_arg arg_def argv i value =
     (if no_value_action arg_def then Inr (i, VNone)
      else case value of
        None \<Rightarrow>
          if Arg.nargs arg_def = ''?'' \<and> (length argv \<le> i + 1 \<or> startswith (argv ! (i + 1)) ''-'')
          then Inr (i, Arg.default arg_def)
          else if length argv \<le> i + 1
          then Inl (ArgError (ArgumentRequiresValue (Arg.name arg_def)))
          else (case convert (argv ! (i + 1)) (Arg.type arg_def) of
                  Inl e \<Rightarrow> Inl e
                | Inr v \<Rightarrow> Inr (i + 1, v))
      | Some s \<Rightarrow>
          (case convert s (Arg.type arg_def) of
             Inl e \<Rightarrow> Inl e
           | Inr v \<Rightarrow> Inr (i, v)))"

text \<open>\<^verbatim>\<open>collected[k].append(v)\<close>, after \<^verbatim>\<open>collected[k] = []\<close> for a new key.\<close>

definition collect :: "collected \<Rightarrow> string \<Rightarrow> pyval \<Rightarrow> collected" where
  "collect c k v = c(k \<mapsto> (case c k of None \<Rightarrow> [] | Some vs \<Rightarrow> vs) @ [v])"

definition store_value ::
  "ParsedArgs \<Rightarrow> Arg \<Rightarrow> pyval \<Rightarrow> collected \<Rightarrow> exn + (ParsedArgs \<times> collected)" where
  "store_value result arg_def v c =
     (let d = dest_of arg_def in
      if action arg_def = ''store_true'' then Inr (result\<lparr>args := (args result)(d \<mapsto> VBool True)\<rparr>, c)
      else if action arg_def = ''store_false'' then Inr (result\<lparr>args := (args result)(d \<mapsto> VBool False)\<rparr>, c)
      else if action arg_def = ''count'' then
        (case py_add_one (dict_get_or (args result) d (VInt 0)) of
           Inl e \<Rightarrow> Inl e
         | Inr n \<Rightarrow> Inr (result\<lparr>args := (args result)(d \<mapsto> n)\<rparr>, c))
      else if action arg_def = ''append'' \<or> Arg.nargs arg_def \<in> set [''*'', ''+''] then
        Inr (result, collect c d v)
      else if Arg.choices arg_def \<noteq> [] \<and> \<not> py_in v (Arg.choices arg_def) then
        Inl (ArgError (InvalidChoiceFor (Arg.name arg_def) v))
      else Inr (result\<lparr>args := (args result)(d \<mapsto> v)\<rparr>, c))"

subsection \<open>The scan\<close>

text \<open>
  The loop over the characters of a short cluster, \<^verbatim>\<open>for j, short in enumerate(arg[1:])\<close>;
  \<open>arg\<close> is the whole token and \<open>i\<close> the index of the token, which the last
  character may advance.
\<close>

fun short_cluster ::
  "ArgParser \<Rightarrow> string list \<Rightarrow> string \<Rightarrow> (nat \<times> char) list \<Rightarrow> nat \<Rightarrow> ParsedArgs \<Rightarrow> collected
     \<Rightarrow> exn + (nat \<times> ParsedArgs \<times> collected)" where
  "short_cluster S argv arg [] i result c = Inr (i, result, c)"
| "short_cluster S argv arg ((j, ch) # rest) i result c =
     (case find_arg_short S [ch] of
        None \<Rightarrow> Inl (ArgError (UnknownArgument (CHR ''-'' # [ch])))
      | Some arg_def \<Rightarrow>
          if no_value_action arg_def then
            (case store_value result arg_def VNone c of
               Inl e \<Rightarrow> Inl e
             | Inr (result', c') \<Rightarrow> short_cluster S argv arg rest i result' c')
          else if j = length arg - 2 then
            (case process_arg arg_def argv i None of
               Inl e \<Rightarrow> Inl e
             | Inr (i', v) \<Rightarrow>
                 (case store_value result arg_def v c of
                    Inl e \<Rightarrow> Inl e
                  | Inr (result', c') \<Rightarrow> short_cluster S argv arg rest i' result' c'))
          else Inl (ArgError (OptionRequiresValue [ch])))"

text \<open>\<^verbatim>\<open>key.split("=", 1)\<close> for a key that contains \<^verbatim>\<open>=\<close>.\<close>

definition split_eq :: "string \<Rightarrow> string \<times> string" where
  "split_eq k = (takeWhile (\<lambda>x. x \<noteq> CHR ''='') k, drop 1 (dropWhile (\<lambda>x. x \<noteq> CHR ''='') k))"

text \<open>The branch \<^verbatim>\<open>elif arg.startswith("--")\<close>.\<close>

definition long_flag ::
  "ArgParser \<Rightarrow> string list \<Rightarrow> nat \<Rightarrow> ParsedArgs \<Rightarrow> collected
     \<Rightarrow> exn + (nat \<times> ParsedArgs \<times> collected)" where
  "long_flag S argv i result c =
     (let key0 = drop 2 (argv ! i);
          (key, value) =
             (if CHR ''='' \<in> set key0
              then (fst (split_eq key0), Some (snd (split_eq key0)))
              else (key0, None))
      in case find_arg S key of
           None \<Rightarrow> Inl (ArgError (UnknownArgument (''--'' @ key)))
         | Some arg_def \<Rightarrow>
             (case process_arg arg_def argv i value of
                Inl e \<Rightarrow> Inl e
              | Inr (i', v) \<Rightarrow>
                  (case store_value result arg_def v c of
                     Inl e \<Rightarrow> Inl e
                   | Inr (result', c') \<Rightarrow> Inr (i', result', c'))))"

text \<open>The last branch: a bare token fills a positional or goes to \<^verbatim>\<open>remaining\<close>.\<close>

definition positional_token ::
  "ArgParser \<Rightarrow> string \<Rightarrow> nat \<Rightarrow> ParsedArgs \<Rightarrow> collected
     \<Rightarrow> exn + (nat \<times> ParsedArgs \<times> collected)" where
  "positional_token S arg pos_idx result c =
     (if pos_idx < length (ArgParser.positionals S) then
        (let pos_def = ArgParser.positionals S ! pos_idx in
         case convert arg (Positional.type pos_def) of
           Inl e \<Rightarrow> Inl e
         | Inr v \<Rightarrow>
             if Positional.choices pos_def \<noteq> [] \<and> \<not> py_in v (Positional.choices pos_def)
             then Inl (ArgError (InvalidChoice v))
             else if Positional.nargs pos_def \<in> set [''*'', ''+'']
             then Inr (pos_idx, result, collect c (Positional.name pos_def) v)
             else Inr (pos_idx + 1,
                       result\<lparr>args := (args result)(Positional.name pos_def \<mapsto> v)\<rparr>, c))
      else Inr (pos_idx, result\<lparr>remaining := remaining result @ [arg]\<rparr>, c))"

text \<open>
  One iteration of the \<^verbatim>\<open>while\<close> loop on a token other than \<^verbatim>\<open>--\<close>, up to but
  not including \<^verbatim>\<open>i += 1\<close>. The result is \<open>(i, pos_idx, result, collected)\<close>.
\<close>

definition parse_step ::
  "ArgParser \<Rightarrow> string list \<Rightarrow> nat \<Rightarrow> nat \<Rightarrow> ParsedArgs \<Rightarrow> collected
     \<Rightarrow> exn + (nat \<times> nat \<times> ParsedArgs \<times> collected)" where
  "parse_step S argv i pos_idx result c =
     (let arg = argv ! i in
      if startswith arg ''--'' then
        (case long_flag S argv i result c of
           Inl e \<Rightarrow> Inl e
         | Inr (i', result', c') \<Rightarrow> Inr (i', pos_idx, result', c'))
      else if startswith arg ''-'' \<and> 1 < length arg then
        (case short_cluster S argv arg (enumerate 0 (drop 1 arg)) i result c of
           Inl e \<Rightarrow> Inl e
         | Inr (i', result', c') \<Rightarrow> Inr (i', pos_idx, result', c'))
      else
        (case positional_token S arg pos_idx result c of
           Inl e \<Rightarrow> Inl e
         | Inr (pos_idx', result', c') \<Rightarrow> Inr (i, pos_idx', result', c')))"

lemma process_arg_index: "process_arg a argv i v = Inr (i', w) \<Longrightarrow> i \<le> i'"
  by (auto simp: process_arg_def split: if_splits option.splits sum.splits)

lemma short_cluster_index: "short_cluster S argv arg cs i r c = Inr (i', r', c') \<Longrightarrow> i \<le> i'"
proof (induction cs arbitrary: i r c)
  case Nil
  then show ?case by simp
next
  case (Cons jc cs)
  obtain j ch where jc: "jc = (j, ch)" by (cases jc)
  from Cons.prems show ?case
    unfolding jc
    by (auto split: option.splits if_splits sum.splits prod.splits
        dest!: Cons.IH process_arg_index)
qed

lemma parse_step_index: "parse_step S argv i p r c = Inr (i', p', r', c') \<Longrightarrow> i \<le> i'"
  by (auto simp: parse_step_def long_flag_def Let_def
      split: if_splits sum.splits prod.splits option.splits
      dest: process_arg_index short_cluster_index)

text \<open>The \<^verbatim>\<open>while i < len(args)\<close> loop; \<^verbatim>\<open>--\<close> assigns \<^verbatim>\<open>remaining\<close> and breaks.\<close>

function parse_loop ::
  "ArgParser \<Rightarrow> string list \<Rightarrow> nat \<Rightarrow> nat \<Rightarrow> ParsedArgs \<Rightarrow> collected
     \<Rightarrow> exn + (ParsedArgs \<times> collected)" where
  "parse_loop S argv i pos_idx result c =
     (if i < length argv then
        if argv ! i = ''--'' then Inr (result\<lparr>remaining := drop (i + 1) argv\<rparr>, c)
        else
          (case parse_step S argv i pos_idx result c of
             Inl e \<Rightarrow> Inl e
           | Inr (i', pos_idx', result', c') \<Rightarrow> parse_loop S argv (i' + 1) pos_idx' result' c')
      else Inr (result, c))"
  by pat_completeness auto
termination
  by (relation "measure (\<lambda>(S, argv, i, pos_idx, result, c). length argv - i)")
    (auto dest: parse_step_index)

text \<open>\<^verbatim>\<open>for name, values in collected.items(): result.args[name] = values\<close>\<close>

definition flush :: "ParsedArgs \<Rightarrow> collected \<Rightarrow> ParsedArgs" where
  "flush result c =
     result\<lparr>args := (\<lambda>k. case c k of None \<Rightarrow> args result k | Some vs \<Rightarrow> Some (VList vs))\<rparr>"

text \<open>
  What follows the loop: the flush, the help exit (\<^verbatim>\<open>print_help\<close> only prints) and the
  validation.
\<close>

definition finish :: "ArgParser \<Rightarrow> ParsedArgs \<Rightarrow> collected \<Rightarrow> exn + ParsedArgs" where
  "finish S result c =
     (let result = flush result c in
      if truthy (dict_get (args result) ''help'') then Inl (SystemExit 0)
      else case validate S result of
             Inl e \<Rightarrow> Inl e
           | Inr u \<Rightarrow> Inr result)"

definition parse :: "ArgParser \<Rightarrow> string list \<Rightarrow> exn + ParsedArgs" where
  "parse S argv =
     (case parse_loop S argv 0 0 (apply_defaults S new_ParsedArgs) Map.empty of
        Inl e \<Rightarrow> Inl e
      | Inr (result, c) \<Rightarrow> finish S result c)"

declare parse_loop.simps [simp del]

subsection \<open>Notions used to state the properties\<close>

text \<open>
  Two characters are the same letter when they are equal or are the upper and lower case
  of one ASCII letter; two strings are equal up to case when they agree letter by letter.
\<close>

definition ascii_letter :: "char \<Rightarrow> bool" where
  "ascii_letter c =
     (let n = of_char c :: nat in (65 \<le> n \<and> n \<le> 90) \<or> (97 \<le> n \<and> n \<le> 122))"

definition same_letter :: "char \<Rightarrow> char \<Rightarrow> bool" where
  "same_letter c d =
     (c = d \<or> (ascii_letter c \<and> ascii_letter d \<and>
        ((of_char c :: nat) + 32 = of_char d \<or> (of_char d :: nat) + 32 = of_char c)))"

definition ci_equal :: "string \<Rightarrow> string \<Rightarrow> bool" where
  "ci_equal s t = list_all2 same_letter s t"

text \<open>
  \<open>extends r r'\<close>: every key of \<open>r\<close> is still a key of \<open>r'\<close>, and the field
  \<^verbatim>\<open>positionals\<close> is the same.
\<close>

definition extends :: "ParsedArgs \<Rightarrow> ParsedArgs \<Rightarrow> bool" where
  "extends r r' =
     (dom (args r) \<subseteq> dom (args r') \<and> ParsedArgs.positionals r' = ParsedArgs.positionals r)"

text \<open>The flag declared last among those that write the key \<open>k\<close>.\<close>

definition last_writer :: "ArgParser \<Rightarrow> string \<Rightarrow> Arg option" where
  "last_writer S k = find (\<lambda>a. dest_of a = k) (rev (arguments S))"

subsection \<open>The parser of \<^verbatim>\<open>example_usage\<close>\<close>

definition example_flags :: "Arg list" where
  "example_flags =
     [(new_Arg ''verbose'' ''v'')\<lparr>action := ''count'', Arg.help := ''Increase verbosity''\<rparr>,
      (new_Arg ''output'' ''o'')\<lparr>Arg.default := VStr ''output.txt'', Arg.help := ''Output file''\<rparr>,
      (new_Arg ''format'' ''f'')\<lparr>Arg.choices := [VStr ''json'', VStr ''xml'', VStr ''csv''],
         Arg.default := VStr ''json'', Arg.help := ''Output format''\<rparr>,
      (new_Arg ''dry-run'' [])\<lparr>action := ''store_true'', Arg.help := ''Don't make any changes''\<rparr>]"

definition example_positionals :: "Positional list" where
  "example_positionals =
     [(new_Positional ''input'')\<lparr>Positional.help := ''Input file''\<rparr>,
      (new_Positional ''extra'')\<lparr>Positional.nargs := ''*'', Positional.help := ''Extra files''\<rparr>]"

definition example_parser :: ArgParser where
  "example_parser =
     fold (\<lambda>p S. add_positional S p) example_positionals
       (fold (\<lambda>a S. add_argument S a) example_flags
          (ArgParser_init ''arg.py'' ''myapp'' ''My awesome application''
             ''Example: myapp --verbose input.txt''))"

subsection \<open>Collisions, and a reading of decimal literals\<close>

text \<open>
  A new flag collides with the schema when a declared flag has its name, or its short
  alias if it has one; a new positional collides when a declared positional has its name.
\<close>

definition flag_collides :: "ArgParser \<Rightarrow> Arg \<Rightarrow> bool" where
  "flag_collides S a =
     list_ex (\<lambda>b. Arg.name b = Arg.name a \<or> (short a \<noteq> [] \<and> short b = short a)) (arguments S)"

definition positional_collides :: "ArgParser \<Rightarrow> Positional \<Rightarrow> bool" where
  "positional_collides S p =
     list_ex (\<lambda>q. Positional.name q = Positional.name p) (ArgParser.positionals S)"

text \<open>
  An optional sign followed by ASCII digits: an instance of the parameter of \<open>py_int\<close>
  for the examples. It agrees with the builtin \<^verbatim>\<open>int\<close> on such literals and on strings
  with a letter in them; the builtin also accepts surrounding whitespace and underscores
  between digits, which this reading rejects and the examples do not use.
\<close>

definition digit_value :: "char \<Rightarrow> nat option" where
  "digit_value c = map_of (zip ''0123456789'' [0, 1, 2, 3, 4, 5, 6, 7, 8, 9]) c"

fun digits_value :: "string \<Rightarrow> nat \<Rightarrow> nat option" where
  "digits_value [] acc = Some acc"
| "digits_value (c # cs) acc =
     (case digit_value c of None \<Rightarrow> None | Some d \<Rightarrow> digits_value cs (10 * acc + d))"

definition decimal_literal :: "string \<Rightarrow> int option" where
  "decimal_literal s =
     (case s of
        [] \<Rightarrow> None
      | c # cs \<Rightarrow>
          if c = CHR ''-'' then
            (if cs = [] then None else map_option (\<lambda>n. - int n) (digits_value cs 0))
          else if c = CHR ''+'' then
            (if cs = [] then None else map_option int (digits_value cs 0))
          else map_option int (digits_value s 0))"

text \<open>A parser with an integer flag \<^verbatim>\<open>--jobs\<close> and an integer positional \<^verbatim>\<open>n\<close>.\<close>

definition jobs_parser :: ArgParser where
  "jobs_parser =
     add_positional
       (add_argument (ArgParser_init ''arg.py'' ''jobs'' [] [])
          ((new_Arg ''jobs'' ''j'')\<lparr>Arg.type := py_int decimal_literal\<rparr>))
       ((new_Positional ''n'')\<lparr>Positional.type := py_int decimal_literal\<rparr>)"

text \<open>A flag with \<^verbatim>\<open>nargs="?"\<close>.\<close>

definition color_flag :: Arg where
  "color_flag = (new_Arg ''color'' ''c'')\<lparr>Arg.nargs := ''?'', Arg.default := VStr ''auto''\<rparr>"

text \<open>
  The parser of the short-cluster example (store-true flags \<^verbatim>\<open>a\<close> and \<^verbatim>\<open>b\<close>, a
  value flag \<^verbatim>\<open>c\<close>), and one with a store-true flag and the \<^verbatim>\<open>nargs="?"\<close> flag.
\<close>

definition abc_parser :: ArgParser where
  "abc_parser =
     fold (\<lambda>a S. add_argument S a)
       [(new_Arg ''a'' ''a'')\<lparr>action := ''store_true''\<rparr>,
        (new_Arg ''b'' ''b'')\<lparr>action := ''store_true''\<rparr>,
        new_Arg ''c'' ''c'']
       (ArgParser_init ''arg.py'' [] [] [])"

definition color_parser :: ArgParser where
  "color_parser =
     fold (\<lambda>a S. add_argument S a)
       [(new_Arg ''a'' ''a'')\<lparr>action := ''store_true''\<rparr>, color_flag]
       (ArgParser_init ''arg.py'' [] [] [])"

text \<open>
  A count flag \<^verbatim>\<open>--verbose\<close> and a value flag \<^verbatim>\<open>--level\<close> that write the same
  destination \<^verbatim>\<open>level\<close>.
\<close>

definition level_parser :: ArgParser where
  "level_parser =
     fold (\<lambda>a S. add_argument S a)
       [(new_Arg ''verbose'' ''v'')\<lparr>action := ''count'', dest := ''level''\<rparr>,
        new_Arg ''level'' ''l'']
       (ArgParser_init ''arg.py'' [] [] [])"

text \<open>
  The result as it stands after the scan and the flush, before the help exit and the
  validation; and a parser with one required flag.
\<close>

definition scanned :: "ArgParser \<Rightarrow> string list \<Rightarrow> exn + ParsedArgs" where
  "scanned S argv =
     (case parse_loop S argv 0 0 (apply_defaults S new_ParsedArgs) Map.empty of
        Inl e \<Rightarrow> Inl e
      | Inr (r, c) \<Rightarrow> Inr (flush r c))"

definition required_parser :: ArgParser where
  "required_parser =
     add_argument (ArgParser_init ''arg.py'' [] [] [])
       ((new_Arg ''input'' ''i'')\<lparr>required := True\<rparr>)"

text \<open>
  The state \<open>(i, pos_idx, result, collected)\<close> of the loop after \<open>n\<close> iterations, if it
  makes that many without raising and without meeting \<^verbatim>\<open>--\<close>.
\<close>

fun scan_steps ::
  "nat \<Rightarrow> ArgParser \<Rightarrow> string list \<Rightarrow> nat \<Rightarrow> nat \<Rightarrow> ParsedArgs \<Rightarrow> collected
     \<Rightarrow> (nat \<times> nat \<times> ParsedArgs \<times> collected) option" where
  "scan_steps 0 S argv i p r c = Some (i, p, r, c)"
| "scan_steps (Suc n) S argv i p r c =
     (if i < length argv \<and> argv ! i \<noteq> ''--'' then
        (case parse_step S argv i p r c of
           Inl e \<Rightarrow> None
         | Inr (i', p', r', c') \<Rightarrow> scan_steps n S argv (i' + 1) p' r' c')
      else None)"

section \<open>Properties\<close>

subsection \<open>Evaluation\<close>

lemmas schema_defs =
  example_parser_def example_flags_def example_positionals_def ArgParser_init_def add_help_def
  add_argument_def add_positional_def new_Arg_def new_Positional_def

lemmas parse_defs =
  parse_def parse_loop.simps parse_step_def long_flag_def positional_token_def split_eq_def
  process_arg_def store_value_def collect_def no_value_action_def startswith_def
  find_arg_def find_arg_short_def dest_of_def default_value_def apply_defaults_def
  new_ParsedArgs_def finish_def flush_def validate_def dict_get_def dict_get_or_def
  py_str_def py_in_def enumerate_eq_zip Let_def

subsection \<open>What a successful parse keeps\<close>

lemma extends_refl: "extends r r"
  by (simp add: extends_def)

lemma extends_trans: "extends r r' \<Longrightarrow> extends r' r'' \<Longrightarrow> extends r r''"
  by (auto simp: extends_def)

lemma store_value_extends: "store_value r a v c = Inr (r', c') \<Longrightarrow> extends r r'"
  by (auto simp: store_value_def Let_def extends_def split: if_splits sum.splits)

lemma short_cluster_extends:
  "short_cluster S argv arg cs i r c = Inr (i', r', c') \<Longrightarrow> extends r r'"
proof (induction cs arbitrary: i r c)
  case Nil
  then show ?case by (simp add: extends_refl)
next
  case (Cons jc cs)
  obtain j ch where jc: "jc = (j, ch)" by (cases jc)
  from Cons.prems show ?case
    unfolding jc
    by (auto split: option.splits if_splits sum.splits prod.splits
        dest!: Cons.IH store_value_extends intro: extends_trans)
qed

lemma long_flag_extends: "long_flag S argv i r c = Inr (i', r', c') \<Longrightarrow> extends r r'"
  by (auto simp: long_flag_def Let_def split: option.splits if_splits sum.splits prod.splits
      dest: store_value_extends)

lemma positional_token_extends:
  "positional_token S arg p r c = Inr (p', r', c') \<Longrightarrow> extends r r'"
  by (auto simp: positional_token_def Let_def extends_def split: if_splits sum.splits)

lemma parse_step_extends:
  "parse_step S argv i p r c = Inr (i', p', r', c') \<Longrightarrow> extends r r'"
  by (auto simp: parse_step_def Let_def split: if_splits sum.splits prod.splits
      dest: long_flag_extends short_cluster_extends positional_token_extends)

lemma parse_loop_extends:
  "parse_loop S argv i p r c = Inr (r', c') \<Longrightarrow> extends r r'"
proof (induction S argv i p r c rule: parse_loop.induct)
  case (1 S argv i pos_idx result c)
  show ?case
  proof (cases "i < length argv")
    case False
    with "1.prems" show ?thesis by (simp add: parse_loop.simps extends_refl)
  next
    case True
    show ?thesis
    proof (cases "argv ! i = ''--''")
      case dd: True
      with True "1.prems" show ?thesis by (auto simp: parse_loop.simps extends_def)
    next
      case nd: False
      from True nd "1.prems" obtain i' p' r1 c1 where
        st: "parse_step S argv i pos_idx result c = Inr (i', p', r1, c1)" and
        lp: "parse_loop S argv (i' + 1) p' r1 c1 = Inr (r', c')"
        by (auto simp: parse_loop.simps[of S argv i] split: sum.splits)
      have "extends r1 r'" using "1.IH"[OF True nd st _] lp by simp
      with parse_step_extends[OF st] show ?thesis by (rule extends_trans)
    qed
  qed
qed

lemma flush_extends: "extends r (flush r c)"
  by (auto simp: flush_def extends_def split: option.splits)

lemma finish_Inr: "finish S r c = Inr r' \<Longrightarrow> r' = flush r c"
  by (auto simp: finish_def Let_def split: if_splits sum.splits)

lemma parse_Inr:
  "parse S argv = Inr r \<Longrightarrow>
     \<exists>r0 c. parse_loop S argv 0 0 (apply_defaults S new_ParsedArgs) Map.empty = Inr (r0, c) \<and>
            r = flush r0 c"
  by (auto simp: parse_def split: sum.splits dest: finish_Inr)

lemma parse_extends_defaults:
  assumes "parse S argv = Inr r"
  shows "extends (apply_defaults S new_ParsedArgs) r"
proof -
  from parse_Inr[OF assms] obtain r0 c where
    lp: "parse_loop S argv 0 0 (apply_defaults S new_ParsedArgs) Map.empty = Inr (r0, c)"
    and r: "r = flush r0 c"
    by blast
  show ?thesis
    unfolding r using parse_loop_extends[OF lp] flush_extends by (rule extends_trans)
qed

subsection \<open>Defaults\<close>

lemma find_app:
  "find P (xs @ ys) = (case find P xs of None \<Rightarrow> find P ys | Some x \<Rightarrow> Some x)"
  by (induction xs) auto

lemma fold_defaults_args:
  "args (fold (\<lambda>a r. r\<lparr>args := (args r)(dest_of a \<mapsto> default_value a)\<rparr>) as r) k =
     (case find (\<lambda>a. dest_of a = k) (rev as) of
        None \<Rightarrow> args r k
      | Some a \<Rightarrow> Some (default_value a))"
  by (induction as arbitrary: r) (auto split: option.splits simp: find_app)


lemma apply_defaults_args:
  "args (apply_defaults S r) k =
     (case last_writer S k of None \<Rightarrow> args r k | Some a \<Rightarrow> Some (default_value a))"
  by (simp add: apply_defaults_def fold_defaults_args last_writer_def)

lemma last_writer_member:
  "a \<in> set (arguments S) \<Longrightarrow> \<exists>b. last_writer S (dest_of a) = Some b"
  by (cases "last_writer S (dest_of a)") (auto simp: last_writer_def find_None_iff)

lemma find_Some_member: "find P xs = Some x \<Longrightarrow> x \<in> set xs \<and> P x"
  by (induction xs) (auto split: if_splits)

lemma last_writer_Some:
  "last_writer S k = Some b \<Longrightarrow> b \<in> set (arguments S) \<and> dest_of b = k"
  unfolding last_writer_def by (drule find_Some_member) simp

lemma apply_defaults_dom:
  "a \<in> set (arguments S) \<Longrightarrow> dest_of a \<in> dom (args (apply_defaults S r))"
  using last_writer_member[of a S] by (auto simp: apply_defaults_args)

lemma parse_empty:
  "parse S [] = finish S (apply_defaults S new_ParsedArgs) Map.empty"
  by (simp add: parse_def parse_loop.simps)

lemma flush_empty: "flush r Map.empty = r"
  by (simp add: flush_def)

subsection \<open>C1: every declared destination is a key of the result\<close>

lemma example_parse_empty: "\<exists>r. parse example_parser [] = Inr r"
  by (simp add: schema_defs parse_defs)

lemma find_rev_last:
  assumes "j < length xs" and "P (xs ! j)"
    and "\<forall>m. j < m \<and> m < length xs \<longrightarrow> \<not> P (xs ! m)"
  shows "find P (rev xs) = Some (xs ! j)"
  using assms
proof (induction xs rule: rev_induct)
  case Nil
  then show ?case by simp
next
  case (snoc x xs)
  show ?case
  proof (cases "j = length xs")
    case True
    with snoc.prems(2) show ?thesis by simp
  next
    case False
    with snoc.prems(1) have j: "j < length xs" by simp
    have nx: "\<not> P x"
      using snoc.prems(3)[rule_format, of "length xs"] j by simp
    have "\<forall>m. j < m \<and> m < length xs \<longrightarrow> \<not> P (xs ! m)"
    proof (intro allI impI)
      fix m assume m: "j < m \<and> m < length xs"
      then have "\<not> P ((xs @ [x]) ! m)" using snoc.prems(3) by simp
      with m show "\<not> P (xs ! m)" by (simp add: nth_append)
    qed
    with snoc.IH[OF j] snoc.prems(2) j have "find P (rev xs) = Some (xs ! j)"
      by (simp add: nth_append)
    with nx j show ?thesis by (simp add: nth_append)
  qed
qed

lemma level_parse_empty: "\<exists>r. parse level_parser [''x''] = Inr r"
  by (simp add: level_parser_def schema_defs parse_defs)

lemma level_parse_nil: "\<exists>r. parse level_parser [] = Inr r"
  by (simp add: level_parser_def schema_defs parse_defs)

text \<open>
  Claim C1 says that in the result every count flag defaults to \<open>0\<close>, every store-true
  flag to \<open>False\<close>, and so on. Where the count flag \<^verbatim>\<open>--verbose\<close> has the destination
  \<^verbatim>\<open>level\<close> and the flag \<^verbatim>\<open>--level\<close>, declared after it, writes the same key, the
  parse of the empty input succeeds and the key \<^verbatim>\<open>level\<close> holds \<^verbatim>\<open>None\<close>, the default
  of the later flag.
\<close>

theorem shared_destination_loses_count_default:
  "action (arguments level_parser ! 1) = ''count'' \<and>
   dest (arguments level_parser ! 1) = ''level'' \<and>
   \<not> isl (parse level_parser []) \<and>
   args (projr (parse level_parser [])) ''level'' = Some VNone"
  by (simp add: level_parser_def schema_defs parse_defs)

text \<open>
  Claim C1, amended. Whenever \<open>parse\<close> returns a result, whatever the input, the
  destination of every declared flag (\<open>dest\<close> if set, else \<open>name\<close>) is a key of the
  result map. The defaults are written flag by flag in the order of declaration, so after
  a parse of the empty input a flag that no later flag shares its destination with has
  there \<open>False\<close> (store-true), \<open>True\<close> (store-false), \<open>0\<close> (count) or its
  configured default (all others): the value under a destination is the default of the
  flag declared last with it.
\<close>

theorem parse_populates_destinations:
  assumes "parse S argv = Inr r" and "a \<in> set (arguments S)"
  shows "(if dest a \<noteq> [] then dest a else Arg.name a) \<in> dom (args r) \<and>
         (argv = [] \<and> j < length (arguments S) \<and> a = arguments S ! j \<and>
          (\<forall>m. j < m \<and> m < length (arguments S) \<longrightarrow>
               (if dest (arguments S ! m) \<noteq> [] then dest (arguments S ! m)
                else Arg.name (arguments S ! m)) \<noteq>
               (if dest a \<noteq> [] then dest a else Arg.name a)) \<longrightarrow>
            args r (if dest a \<noteq> [] then dest a else Arg.name a) =
              Some (if action a = ''store_true'' then VBool False
                    else if action a = ''store_false'' then VBool True
                    else if action a = ''count'' then VInt 0
                    else Arg.default a))"
proof (intro conjI impI)
  have "extends (apply_defaults S new_ParsedArgs) r"
    using assms(1) by (rule parse_extends_defaults)
  with apply_defaults_dom[OF assms(2), of new_ParsedArgs]
  have "dest_of a \<in> dom (args r)"
    by (auto simp: extends_def)
  then show "(if dest a \<noteq> [] then dest a else Arg.name a) \<in> dom (args r)"
    by (simp add: dest_of_def)
next
  assume h: "argv = [] \<and> j < length (arguments S) \<and> a = arguments S ! j \<and>
          (\<forall>m. j < m \<and> m < length (arguments S) \<longrightarrow>
               (if dest (arguments S ! m) \<noteq> [] then dest (arguments S ! m)
                else Arg.name (arguments S ! m)) \<noteq>
               (if dest a \<noteq> [] then dest a else Arg.name a))"
  then have "find (\<lambda>b. dest_of b = dest_of a) (rev (arguments S)) = Some (arguments S ! j)"
    by (intro find_rev_last) (auto simp: dest_of_def)
  then have lw: "last_writer S (dest_of a) = Some a"
    using h by (simp add: last_writer_def)
  from h assms(1) have "r = apply_defaults S new_ParsedArgs"
    by (auto simp: parse_empty flush_empty dest: finish_Inr)
  then have "args r (dest_of a) = Some (default_value a)"
    using lw by (simp add: apply_defaults_args)
  then show "args r (if dest a \<noteq> [] then dest a else Arg.name a) =
              Some (if action a = ''store_true'' then VBool False
                    else if action a = ''store_false'' then VBool True
                    else if action a = ''count'' then VInt 0
                    else Arg.default a)"
    by (simp add: dest_of_def default_value_def)
qed

theorem parse_populates_destinations_witness:
  "(\<exists>r. parse level_parser [''x''] = Inr r \<and> ''level'' \<in> dom (args r)) \<and>
   (\<exists>r. parse level_parser [] = Inr r \<and> args r ''level'' = Some VNone) \<and>
   (\<exists>r. parse example_parser [] = Inr r \<and> args r ''verbose'' = Some (VInt 0))"
proof -
  have as: "arguments level_parser =
      [(new_Arg ''help'' ''h'')\<lparr>action := ''store_true'', Arg.help := ''Show this help message''\<rparr>,
       (new_Arg ''verbose'' ''v'')\<lparr>action := ''count'', dest := ''level''\<rparr>,
       new_Arg ''level'' ''l'']"
    by (simp add: level_parser_def schema_defs)
  obtain r1 where r1: "parse level_parser [''x''] = Inr r1"
    using level_parse_empty by blast
  have "''level'' \<in> dom (args r1)"
    using parse_populates_destinations[OF r1,
        where a = "(new_Arg ''verbose'' ''v'')\<lparr>action := ''count'', dest := ''level''\<rparr>"]
    by (simp add: as new_Arg_def)
  with r1 have 1: "\<exists>r. parse level_parser [''x''] = Inr r \<and> ''level'' \<in> dom (args r)"
    by blast
  obtain r2 where r2: "parse level_parser [] = Inr r2"
    using level_parse_nil by blast
  have "args r2 ''level'' = Some VNone"
    using parse_populates_destinations[OF r2,
        where a = "new_Arg ''level'' ''l''" and j = 2]
    by (simp add: as new_Arg_def)
  with r2 have 2: "\<exists>r. parse level_parser [] = Inr r \<and> args r ''level'' = Some VNone"
    by blast
  have ex: "arguments example_parser =
      (new_Arg ''help'' ''h'')\<lparr>action := ''store_true'', Arg.help := ''Show this help message''\<rparr>
        # example_flags"
    by (simp add: schema_defs)
  obtain r3 where r3: "parse example_parser [] = Inr r3"
    using example_parse_empty by blast
  have "args r3 ''verbose'' = Some (VInt 0)"
    using parse_populates_destinations[OF r3, where a = "hd example_flags" and j = 1]
    by (simp add: ex example_flags_def new_Arg_def nth_Cons' less_Suc_eq all_conj_distrib)
  with r3 have 3: "\<exists>r. parse example_parser [] = Inr r \<and> args r ''verbose'' = Some (VInt 0)"
    by blast
  from 1 2 3 show ?thesis by blast
qed

subsection \<open>C2: adding entries to the schema\<close>

text \<open>
  Claim C2 says that \<^verbatim>\<open>add_argument\<close> and \<^verbatim>\<open>add_positional\<close> fail on a colliding
  name or short alias. They do not: a second flag \<^verbatim>\<open>help\<close> with short \<^verbatim>\<open>h\<close> is
  appended to a fresh parser, which already declares both, and a positional can be
  declared twice.
\<close>

theorem add_entry_accepts_collisions:
  "flag_collides (ArgParser_init ''arg.py'' [] [] []) (new_Arg ''help'' ''h'') \<and>
   arguments (add_argument (ArgParser_init ''arg.py'' [] [] []) (new_Arg ''help'' ''h'')) =
     arguments (ArgParser_init ''arg.py'' [] [] []) @ [new_Arg ''help'' ''h''] \<and>
   positional_collides (add_positional (ArgParser_init ''arg.py'' [] [] []) (new_Positional ''input''))
     (new_Positional ''input'') \<and>
   ArgParser.positionals
     (add_positional (add_positional (ArgParser_init ''arg.py'' [] [] []) (new_Positional ''input''))
        (new_Positional ''input'')) =
     [new_Positional ''input'', new_Positional ''input'']"
  by (simp add: flag_collides_def positional_collides_def schema_defs)

text \<open>
  Claim C2, amended. \<^verbatim>\<open>add_argument\<close> and \<^verbatim>\<open>add_positional\<close> never fail and never
  look at the declared entries: they append the new entry to its list and leave every
  other field of the parser as it was.
\<close>

theorem add_entry_appends:
  "arguments (add_argument S a) = arguments S @ [a] \<and>
   ArgParser.positionals (add_argument S a) = ArgParser.positionals S \<and>
   prog (add_argument S a) = prog S \<and>
   description (add_argument S a) = description S \<and>
   epilog (add_argument S a) = epilog S \<and>
   ArgParser.positionals (add_positional S p) = ArgParser.positionals S @ [p] \<and>
   arguments (add_positional S p) = arguments S \<and>
   prog (add_positional S p) = prog S \<and>
   description (add_positional S p) = description S \<and>
   epilog (add_positional S p) = epilog S"
  by (simp add: add_argument_def add_positional_def)

subsection \<open>C3: conversion to a number or a string\<close>

lemma parse_first_step_error:
  assumes "tok \<noteq> ''--''"
    and "parse_step S (tok # rest) 0 0 (apply_defaults S new_ParsedArgs) Map.empty = Inl e"
  shows "parse S (tok # rest) = Inl e"
  using assms by (simp add: parse_def parse_loop.simps[of S "tok # rest" 0])

lemma split_eq_key:
  "CHR ''='' \<notin> set n \<Longrightarrow> split_eq (n @ CHR ''='' # v) = (n, v)"
  by (induction n) (auto simp: split_eq_def)

lemma long_flag_inline:
  assumes "argv ! i = ''--'' @ n @ CHR ''='' # v" and "CHR ''='' \<notin> set n" and "find_arg S n = Some a"
  shows "long_flag S argv i r c =
           (case process_arg a argv i (Some v) of
              Inl e \<Rightarrow> Inl e
            | Inr (i', w) \<Rightarrow>
                (case store_value r a w c of
                   Inl e \<Rightarrow> Inl e
                 | Inr (r', c') \<Rightarrow> Inr (i', r', c')))"
  using assms by (simp add: long_flag_def split_eq_key)

lemma long_flag_bare:
  assumes "argv ! i = ''--'' @ n" and "CHR ''='' \<notin> set n" and "find_arg S n = Some a"
  shows "long_flag S argv i r c =
           (case process_arg a argv i None of
              Inl e \<Rightarrow> Inl e
            | Inr (i', w) \<Rightarrow>
                (case store_value r a w c of
                   Inl e \<Rightarrow> Inl e
                 | Inr (r', c') \<Rightarrow> Inr (i', r', c')))"
  using assms by (simp add: long_flag_def)

lemma parse_positional_convert_error:
  assumes "ArgParser.positionals S = p # ps" and "\<not> startswith v ''-''"
    and "convert v (Positional.type p) = Inl e"
  shows "parse S (v # rest) = Inl e"
proof -
  from assms(2) have n1: "v \<noteq> ''--''" and n2: "\<not> startswith v ''--''"
    by (cases v; cases "tl v"; auto simp: startswith_def)+
  have "parse_step S (v # rest) 0 0 (apply_defaults S new_ParsedArgs) Map.empty = Inl e"
    using assms n2 by (simp add: parse_step_def positional_token_def)
  with n1 show ?thesis by (rule parse_first_step_error)
qed

lemma parse_inline_convert_error:
  assumes "find_arg S n = Some a" and "\<not> no_value_action a" and "CHR ''='' \<notin> set n"
    and "convert v (Arg.type a) = Inl e"
  shows "parse S ((''--'' @ n @ CHR ''='' # v) # rest) = Inl e"
proof -
  let ?tok = "''--'' @ n @ CHR ''='' # v"
  have "long_flag S (?tok # rest) 0 (apply_defaults S new_ParsedArgs) Map.empty = Inl e"
    using assms by (simp add: long_flag_inline[where n = n and v = v and a = a] process_arg_def)
  then have "parse_step S (?tok # rest) 0 0 (apply_defaults S new_ParsedArgs) Map.empty = Inl e"
    by (simp add: parse_step_def startswith_def)
  moreover have "?tok \<noteq> ''--''" by simp
  ultimately show ?thesis by (intro parse_first_step_error)
qed

text \<open>
  Claim C3. For the types \<^verbatim>\<open>int\<close> and \<^verbatim>\<open>float\<close>, \<open>convert\<close> applies the language's
  reading of the token and raises \<open>ValueError\<close> exactly when the token is malformed for
  it; for \<^verbatim>\<open>str\<close> the token comes back unchanged. The exception reaches the caller of
  \<open>parse\<close>, both from a positional and from the inline value of a flag.
\<close>

theorem convert_numeric_string:
  "convert v (py_int il) = (case il v of None \<Rightarrow> Inl ValueError | Some k \<Rightarrow> Inr (VInt k)) \<and>
   convert v (py_float fl) = (case fl v of None \<Rightarrow> Inl ValueError | Some x \<Rightarrow> Inr (VFloat x)) \<and>
   convert v py_str = Inr (VStr v) \<and>
   ((\<exists>e. convert v (py_int il) = Inl e) = (il v = None)) \<and>
   ((\<exists>e. convert v (py_float fl) = Inl e) = (fl v = None)) \<and>
   (ArgParser.positionals S = p # ps \<and> \<not> startswith v ''-'' \<and>
    ((Positional.type p = py_int il \<and> il v = None) \<or> (Positional.type p = py_float fl \<and> fl v = None))
      \<longrightarrow> parse S (v # rest) = Inl ValueError) \<and>
   (find_arg S n = Some a \<and> \<not> no_value_action a \<and> CHR ''='' \<notin> set n \<and>
    ((Arg.type a = py_int il \<and> il v = None) \<or> (Arg.type a = py_float fl \<and> fl v = None))
      \<longrightarrow> parse S ((''--'' @ n @ CHR ''='' # v) # rest) = Inl ValueError)"
proof -
  have ci: "convert v (py_int il) = (case il v of None \<Rightarrow> Inl ValueError | Some k \<Rightarrow> Inr (VInt k))"
    by (simp add: py_int_def)
  have cf: "convert v (py_float fl) = (case fl v of None \<Rightarrow> Inl ValueError | Some x \<Rightarrow> Inr (VFloat x))"
    by (simp add: py_float_def)
  have cs: "convert v py_str = Inr (VStr v)"
    by (simp add: py_str_def)
  have ei: "(\<exists>e. convert v (py_int il) = Inl e) = (il v = None)"
    unfolding ci by (cases "il v") auto
  have ef: "(\<exists>e. convert v (py_float fl) = Inl e) = (fl v = None)"
    unfolding cf by (cases "fl v") auto
  have pos: "parse S (v # rest) = Inl ValueError"
    if "ArgParser.positionals S = p # ps" "\<not> startswith v ''-''"
      "(Positional.type p = py_int il \<and> il v = None) \<or> (Positional.type p = py_float fl \<and> fl v = None)"
  proof -
    from that(3) have "convert v (Positional.type p) = Inl ValueError"
      using ci cf by auto
    with that(1,2) show ?thesis by (intro parse_positional_convert_error)
  qed
  have flag: "parse S ((''--'' @ n @ CHR ''='' # v) # rest) = Inl ValueError"
    if "find_arg S n = Some a" "\<not> no_value_action a" "CHR ''='' \<notin> set n"
      "(Arg.type a = py_int il \<and> il v = None) \<or> (Arg.type a = py_float fl \<and> fl v = None)"
  proof -
    from that(4) have "convert v (Arg.type a) = Inl ValueError"
      using ci cf by auto
    with that(1,2,3) show ?thesis by (intro parse_inline_convert_error)
  qed
  from ci cf cs ei ef pos flag show ?thesis by blast
qed

theorem convert_numeric_string_witness:
  "parse jobs_parser [''seven''] = Inl ValueError \<and>
   parse jobs_parser [''--jobs=1O''] = Inl ValueError \<and>
   convert ''12'' (py_int decimal_literal) = Inr (VInt 12)"
proof -
  have p: "ArgParser.positionals jobs_parser = [(new_Positional ''n'')\<lparr>Positional.type := py_int decimal_literal\<rparr>]"
    by (simp add: jobs_parser_def schema_defs)
  have f: "find_arg jobs_parser ''jobs'' = Some ((new_Arg ''jobs'' ''j'')\<lparr>Arg.type := py_int decimal_literal\<rparr>)"
    by (simp add: jobs_parser_def schema_defs find_arg_def)
  have d1: "decimal_literal ''seven'' = None" "decimal_literal ''1O'' = None" "decimal_literal ''12'' = Some 12"
    by (simp_all add: decimal_literal_def digit_value_def)
  note t = convert_numeric_string[where il = decimal_literal and S = jobs_parser]
  have "parse jobs_parser [''seven''] = Inl ValueError"
    using t[where v = "''seven''" and p = "(new_Positional ''n'')\<lparr>Positional.type := py_int decimal_literal\<rparr>"
        and ps = "[]" and rest = "[]"] p d1
    by (simp add: startswith_def new_Positional_def)
  moreover have "parse jobs_parser [''--jobs=1O''] = Inl ValueError"
    using t[where v = "''1O''" and n = "''jobs''" and rest = "[]"
        and a = "(new_Arg ''jobs'' ''j'')\<lparr>Arg.type := py_int decimal_literal\<rparr>"] f d1
    by (simp add: no_value_action_def new_Arg_def)
  moreover have "convert ''12'' (py_int decimal_literal) = Inr (VInt 12)"
    using t[where v = "''12''"] d1 by simp
  ultimately show ?thesis by simp
qed

subsection \<open>C8: conversion to a boolean\<close>

lemma char_of_add32: "(n::nat) < 224 \<Longrightarrow> (char_of (n + 32) = d) = (n + 32 = of_char d)"
  by (simp add: char_of_eq_iff take_bit_eq_mod)

lemma of_char_inj_nat: "((of_char c :: nat) = of_char d) = (c = d)"
  by (metis char_of_char)

lemma lower_char_lc:
  assumes "(97 \<le> (of_char d :: nat) \<and> (of_char d :: nat) \<le> 122) \<or> (48 \<le> (of_char d :: nat) \<and> (of_char d :: nat) \<le> 57)"
  shows "(lower_char c = d) = same_letter c d"
proof (cases "65 \<le> (of_char c :: nat) \<and> (of_char c :: nat) \<le> 90")
  case True
  then have "lower_char c = char_of ((of_char c :: nat) + 32)"
    by (simp add: lower_char_def Let_def)
  moreover have "c \<noteq> d" using True assms by auto
  ultimately show ?thesis using True assms
    by (auto simp: char_of_add32 same_letter_def ascii_letter_def Let_def)
next
  case False
  show ?thesis
  proof (cases "192 \<le> (of_char c :: nat) \<and> (of_char c :: nat) \<le> 222 \<and> (of_char c :: nat) \<noteq> 215")
    case True
    then have "lower_char c = char_of ((of_char c :: nat) + 32)"
      by (simp add: lower_char_def Let_def)
    moreover have "c \<noteq> d" using True assms by auto
    ultimately show ?thesis using True assms
      by (auto simp: char_of_add32 same_letter_def ascii_letter_def Let_def)
  next
    case F2: False
    with False have "lower_char c = c"
      by (auto simp: lower_char_def Let_def)
    then show ?thesis using False F2 assms
      by (auto simp: same_letter_def ascii_letter_def Let_def of_char_inj_nat[symmetric] simp del: of_char_eq_iff)
  qed
qed

lemma lower_eq_iff:
  assumes "\<forall>d \<in> set w. (97 \<le> (of_char d :: nat) \<and> (of_char d :: nat) \<le> 122) \<or> (48 \<le> (of_char d :: nat) \<and> (of_char d :: nat) \<le> 57)"
  shows "(lower s = w) = ci_equal s w"
  using assms
proof (induction w arbitrary: s)
  case Nil
  then show ?case by (simp add: lower_def ci_equal_def)
next
  case (Cons d w)
  show ?case
  proof (cases s)
    case Nil
    then show ?thesis by (simp add: lower_def ci_equal_def)
  next
    case (Cons c s')
    have "(lower s' = w) = ci_equal s' w" using Cons.IH Cons.prems by simp
    moreover have "(lower_char c = d) = same_letter c d"
      using Cons.prems by (intro lower_char_lc) simp
    ultimately show ?thesis using Cons by (simp add: lower_def ci_equal_def)
  qed
qed

text \<open>
  Claim C8. Conversion to \<^verbatim>\<open>bool\<close> never raises; it returns \<open>True\<close> exactly when
  the token equals one of \<^verbatim>\<open>true\<close>, \<^verbatim>\<open>1\<close>, \<^verbatim>\<open>yes\<close>, \<^verbatim>\<open>on\<close> up to the case of
  its letters, and \<open>False\<close> for every other string.
\<close>

theorem convert_bool_truthy_words:
  "convert v PyBool =
     Inr (VBool (ci_equal v ''true'' \<or> ci_equal v ''1'' \<or> ci_equal v ''yes'' \<or> ci_equal v ''on''))"
proof -
  have "(lower v = ''true'') = ci_equal v ''true''" by (rule lower_eq_iff) simp
  moreover have "(lower v = ''1'') = ci_equal v ''1''" by (rule lower_eq_iff) simp
  moreover have "(lower v = ''yes'') = ci_equal v ''yes''" by (rule lower_eq_iff) simp
  moreover have "(lower v = ''on'') = ci_equal v ''on''" by (rule lower_eq_iff) simp
  ultimately show ?thesis by simp
qed

theorem convert_bool_truthy_words_witness:
  "convert ''YeS'' PyBool = Inr (VBool True) \<and>
   convert ''ON'' PyBool = Inr (VBool True) \<and>
   convert ''false'' PyBool = Inr (VBool False) \<and>
   convert [] PyBool = Inr (VBool False)"
  using convert_bool_truthy_words[of "''YeS''"] convert_bool_truthy_words[of "''ON''"]
    convert_bool_truthy_words[of "''false''"] convert_bool_truthy_words[of "[]"]
  by (simp add: ci_equal_def same_letter_def ascii_letter_def)

subsection \<open>C6: value resolution without an inline value\<close>

lemma parse_loop_long_bare:
  assumes "i < length argv" and "argv ! i = ''--'' @ n" and "n \<noteq> []"
    and "CHR ''='' \<notin> set n" and "find_arg S n = Some a"
  shows "parse_loop S argv i p r c =
           (case process_arg a argv i None of
              Inl e \<Rightarrow> Inl e
            | Inr (i', v) \<Rightarrow>
                (case store_value r a v c of
                   Inl e \<Rightarrow> Inl e
                 | Inr (r', c') \<Rightarrow> parse_loop S argv (i' + 1) p r' c'))"
proof -
  from assms(2,3) have nd: "argv ! i \<noteq> ''--''" by simp
  have sw: "startswith (argv ! i) ''--''" using assms(2) by (simp add: startswith_def)
  show ?thesis
    using assms(1) nd sw long_flag_bare[OF assms(2,4,5), of r c]
    by (simp add: parse_loop.simps[of S argv i] parse_step_def
        split: sum.splits prod.splits)
qed

text \<open>
  Claim C6. For a flag that takes a value, scanned at index \<open>length pre\<close> with no inline
  value: if \<^verbatim>\<open>nargs\<close> is \<^verbatim>\<open>?\<close> and there is no next token or it starts with
  \<^verbatim>\<open>-\<close>, the configured default is the value and the index stays (no token is
  consumed); otherwise the next token is converted and the index advances past it, and
  without a next token \<^verbatim>\<open>ArgError\<close> (requires a value) is raised. A bare long flag
  \<^verbatim>\<open>--name\<close> is resolved in this way, and the scan goes on after the returned index.
\<close>

theorem value_resolution_without_inline:
  assumes "\<not> no_value_action a"
  shows "process_arg a (pre @ tok # rest) (length pre) None =
           (if Arg.nargs a = ''?'' \<and> (rest = [] \<or> startswith (hd rest) ''-'')
            then Inr (length pre, Arg.default a)
            else case rest of
                   [] \<Rightarrow> Inl (ArgError (ArgumentRequiresValue (Arg.name a)))
                 | nxt # rest' \<Rightarrow>
                     (case convert nxt (Arg.type a) of
                        Inl e \<Rightarrow> Inl e
                      | Inr v \<Rightarrow> Inr (length pre + 1, v))) \<and>
         (tok = ''--'' @ n \<and> n \<noteq> [] \<and> CHR ''='' \<notin> set n \<and> find_arg S n = Some a \<longrightarrow>
            parse_loop S (pre @ tok # rest) (length pre) p r c =
              (case process_arg a (pre @ tok # rest) (length pre) None of
                 Inl e \<Rightarrow> Inl e
               | Inr (i', v) \<Rightarrow>
                   (case store_value r a v c of
                      Inl e \<Rightarrow> Inl e
                    | Inr (r', c') \<Rightarrow> parse_loop S (pre @ tok # rest) (i' + 1) p r' c')))"
proof (intro conjI impI)
  show "process_arg a (pre @ tok # rest) (length pre) None =
           (if Arg.nargs a = ''?'' \<and> (rest = [] \<or> startswith (hd rest) ''-'')
            then Inr (length pre, Arg.default a)
            else case rest of
                   [] \<Rightarrow> Inl (ArgError (ArgumentRequiresValue (Arg.name a)))
                 | nxt # rest' \<Rightarrow>
                     (case convert nxt (Arg.type a) of
                        Inl e \<Rightarrow> Inl e
                      | Inr v \<Rightarrow> Inr (length pre + 1, v)))"
    using assms by (cases rest) (auto simp: process_arg_def nth_append)
next
  assume h: "tok = ''--'' @ n \<and> n \<noteq> [] \<and> CHR ''='' \<notin> set n \<and> find_arg S n = Some a"
  have "length pre < length (pre @ tok # rest)" by simp
  moreover have "(pre @ tok # rest) ! length pre = ''--'' @ n" using h by simp
  ultimately show "parse_loop S (pre @ tok # rest) (length pre) p r c =
              (case process_arg a (pre @ tok # rest) (length pre) None of
                 Inl e \<Rightarrow> Inl e
               | Inr (i', v) \<Rightarrow>
                   (case store_value r a v c of
                      Inl e \<Rightarrow> Inl e
                    | Inr (r', c') \<Rightarrow> parse_loop S (pre @ tok # rest) (i' + 1) p r' c'))"
    using h by (intro parse_loop_long_bare) auto
qed

theorem value_resolution_without_inline_witness:
  "process_arg color_flag [''--color'', ''--verbose''] 0 None = Inr (0, VStr ''auto'') \<and>
   process_arg color_flag [''--color''] 0 None = Inr (0, VStr ''auto'') \<and>
   process_arg color_flag [''--color'', ''red''] 0 None = Inr (1, VStr ''red'') \<and>
   process_arg (new_Arg ''output'' ''o'') [''x'', ''--output''] 1 None =
     Inl (ArgError (ArgumentRequiresValue ''output'')) \<and>
   parse_loop (add_argument (ArgParser_init ''arg.py'' [] [] []) color_flag)
       [''--color'', ''red''] 0 0 new_ParsedArgs Map.empty =
     parse_loop (add_argument (ArgParser_init ''arg.py'' [] [] []) color_flag)
       [''--color'', ''red''] 2 0 (new_ParsedArgs\<lparr>args := [''color'' \<mapsto> VStr ''red'']\<rparr>) Map.empty"
proof -
  have nv: "\<not> no_value_action color_flag" "\<not> no_value_action (new_Arg ''output'' ''o'')"
    by (simp_all add: color_flag_def new_Arg_def no_value_action_def)
  have f: "find_arg (add_argument (ArgParser_init ''arg.py'' [] [] []) color_flag) ''color'' = Some color_flag"
    by (simp add: find_arg_def schema_defs color_flag_def)
  note t = value_resolution_without_inline
  have 1: "process_arg color_flag [''--color'', ''--verbose''] 0 None = Inr (0, VStr ''auto'')"
    using t[OF nv(1), where pre = "[]" and tok = "''--color''" and rest = "[''--verbose'']"]
    by (simp add: color_flag_def new_Arg_def startswith_def)
  have 2: "process_arg color_flag [''--color''] 0 None = Inr (0, VStr ''auto'')"
    using t[OF nv(1), where pre = "[]" and tok = "''--color''" and rest = "[]"]
    by (simp add: color_flag_def new_Arg_def startswith_def)
  have 3: "process_arg color_flag [''--color'', ''red''] 0 None = Inr (1, VStr ''red'')"
    using t[OF nv(1), where pre = "[]" and tok = "''--color''" and rest = "[''red'']"]
    by (simp add: color_flag_def new_Arg_def startswith_def py_str_def)
  have 4: "process_arg (new_Arg ''output'' ''o'') [''x'', ''--output''] 1 None =
     Inl (ArgError (ArgumentRequiresValue ''output''))"
    using t[OF nv(2), where pre = "[''x'']" and tok = "''--output''" and rest = "[]"]
    by (simp add: new_Arg_def)
  have 5: "parse_loop (add_argument (ArgParser_init ''arg.py'' [] [] []) color_flag)
       [''--color'', ''red''] 0 0 new_ParsedArgs Map.empty =
     parse_loop (add_argument (ArgParser_init ''arg.py'' [] [] []) color_flag)
       [''--color'', ''red''] 2 0 (new_ParsedArgs\<lparr>args := [''color'' \<mapsto> VStr ''red'']\<rparr>) Map.empty"
  proof -
    let ?S = "add_argument (ArgParser_init ''arg.py'' [] [] []) color_flag"
    have L: "parse_loop ?S [''--color'', ''red''] 0 0 new_ParsedArgs Map.empty =
       (case process_arg color_flag [''--color'', ''red''] 0 None of
                 Inl e \<Rightarrow> Inl e
               | Inr (i', v) \<Rightarrow>
                   (case store_value new_ParsedArgs color_flag v Map.empty of
                      Inl e \<Rightarrow> Inl e
                    | Inr (r', c') \<Rightarrow> parse_loop ?S [''--color'', ''red''] (i' + 1) 0 r' c'))"
      using t[OF nv(1), where pre = "[]" and tok = "''--color''" and rest = "[''red'']"
        and n = "''color''" and S = ?S and p = 0 and r = new_ParsedArgs and c = Map.empty,
        unfolded append_Nil list.size, THEN conjunct2] f
      by simp
    have st: "store_value new_ParsedArgs color_flag (VStr ''red'') Map.empty =
        Inr (new_ParsedArgs\<lparr>args := [''color'' \<mapsto> VStr ''red'']\<rparr>, Map.empty)"
      by (simp add: store_value_def color_flag_def new_Arg_def dest_of_def new_ParsedArgs_def)
    show ?thesis unfolding L 3 using st by (simp add: numeral_2_eq_2)
  qed
  from 1 2 3 4 5 show ?thesis by blast
qed

subsection \<open>C4: the separator\<close>

lemma validate_args_remaining:
  "validate_args as (r\<lparr>remaining := x\<rparr>) = validate_args as r"
  by (induction as) auto

lemma flush_remaining: "flush (r\<lparr>remaining := x\<rparr>) c = (flush r c)\<lparr>remaining := x\<rparr>"
  by (simp add: flush_def cong: option.case_cong)

lemma finish_remaining:
  "finish S (r\<lparr>remaining := x\<rparr>) c =
     (case finish S r c of Inl e \<Rightarrow> Inl e | Inr r' \<Rightarrow> Inr (r'\<lparr>remaining := x\<rparr>))"
proof -
  have a: "args ((flush r c)\<lparr>remaining := x\<rparr>) = args (flush r c)" by simp
  show ?thesis
    unfolding finish_def Let_def flush_remaining validate_def validate_args_remaining a
    by (simp split: sum.splits)
qed

lemma parse_loop_separator:
  "i < length argv \<Longrightarrow> argv ! i = ''--'' \<Longrightarrow>
     parse_loop S argv i p r c = Inr (r\<lparr>remaining := drop (i + 1) argv\<rparr>, c)"
  by (simp add: parse_loop.simps)

lemma scan_steps_loop:
  "scan_steps n S argv i p r c = Some (i', p', r', c') \<Longrightarrow>
     parse_loop S argv i p r c = parse_loop S argv i' p' r' c'"
proof (induction n arbitrary: i p r c)
  case 0
  then show ?case by simp
next
  case (Suc n)
  from Suc.prems obtain i1 p1 r1 c1 where
    g: "i < length argv" "argv ! i \<noteq> ''--''" and
    st: "parse_step S argv i p r c = Inr (i1, p1, r1, c1)" and
    rest: "scan_steps n S argv (i1 + 1) p1 r1 c1 = Some (i', p', r', c')"
    by (auto split: if_splits sum.splits)
  have "parse_loop S argv i p r c = parse_loop S argv (i1 + 1) p1 r1 c1"
    using g st by (simp add: parse_loop.simps[of S argv i])
  with Suc.IH[OF rest] show ?case by simp
qed

lemma remaining_flush: "remaining (flush r c) = remaining r"
  by (simp add: flush_def)

text \<open>
  Claim C4. When the scan reaches a token \<^verbatim>\<open>--\<close>, the loop ends at once with
  \<^verbatim>\<open>remaining\<close> set to the tokens after it, in order, and nothing else changed: no
  flag or positional is looked up for them. If the loop stands at a token \<^verbatim>\<open>--\<close>
  after some number of iterations from the start, \<open>parse\<close> ends as the flush, the help
  test and the validation of the state reached there decide, and a returned result has
  exactly the tokens after that \<^verbatim>\<open>--\<close> in \<^verbatim>\<open>remaining\<close> and the flushed map of that
  state as its map. A parse whose first token is \<^verbatim>\<open>--\<close> therefore ends as the parse
  of the empty input does, with the rest of the input in \<^verbatim>\<open>remaining\<close>; for
  \<^verbatim>\<open>["--", "-x", "--y"]\<close> that is \<^verbatim>\<open>["-x", "--y"]\<close>.
\<close>

theorem separator_stops_scan:
  "(i < length argv \<and> argv ! i = ''--'' \<longrightarrow>
      parse_loop S argv i p r c = Inr (r\<lparr>remaining := drop (i + 1) argv\<rparr>, c)) \<and>
   (scan_steps n S argv 0 0 (apply_defaults S new_ParsedArgs) Map.empty = Some (i, p, r, c) \<and>
    i < length argv \<and> argv ! i = ''--'' \<longrightarrow>
      parse S argv =
        (case finish S r c of
           Inl e \<Rightarrow> Inl e
         | Inr r1 \<Rightarrow> Inr (r1\<lparr>remaining := drop (i + 1) argv\<rparr>)) \<and>
      (parse S argv = Inr r2 \<longrightarrow>
         remaining r2 = drop (i + 1) argv \<and> args r2 = args (flush r c))) \<and>
   parse S (''--'' # rest) =
     (case parse S [] of Inl e \<Rightarrow> Inl e | Inr r0 \<Rightarrow> Inr (r0\<lparr>remaining := rest\<rparr>)) \<and>
   (parse S (''--'' # rest) = Inr r' \<longrightarrow> remaining r' = rest) \<and>
   (parse S [''--'', ''-x'', ''--y''] = Inr r'' \<longrightarrow> remaining r'' = [''-x'', ''--y''])"
proof -
  have a: "parse S (''--'' # ts) =
     (case parse S [] of Inl e \<Rightarrow> Inl e | Inr r0 \<Rightarrow> Inr (r0\<lparr>remaining := ts\<rparr>))" for ts
    by (simp add: parse_def parse_loop_separator finish_remaining)
      (simp add: parse_loop.simps)
  have b: "remaining q = ts" if "parse S (''--'' # ts) = Inr q" for q ts
    using that unfolding a by (auto split: sum.splits)
  have g: "parse S argv =
        (case finish S r c of
           Inl e \<Rightarrow> Inl e
         | Inr r1 \<Rightarrow> Inr (r1\<lparr>remaining := drop (i + 1) argv\<rparr>))"
    if "scan_steps n S argv 0 0 (apply_defaults S new_ParsedArgs) Map.empty = Some (i, p, r, c)"
      "i < length argv" "argv ! i = ''--''"
  proof -
    have "parse_loop S argv 0 0 (apply_defaults S new_ParsedArgs) Map.empty =
        Inr (r\<lparr>remaining := drop (i + 1) argv\<rparr>, c)"
      using scan_steps_loop[OF that(1)] parse_loop_separator[OF that(2,3)] by simp
    then show ?thesis by (simp add: parse_def finish_remaining split: sum.splits)
  qed
  have h: "remaining r2 = drop (i + 1) argv \<and> args r2 = args (flush r c)"
    if h1: "scan_steps n S argv 0 0 (apply_defaults S new_ParsedArgs) Map.empty = Some (i, p, r, c)"
      and h2: "i < length argv" and h3: "argv ! i = ''--''" and h4: "parse S argv = Inr r2"
  proof -
    from h4 obtain r1 where f: "finish S r c = Inr r1"
      and r2: "r2 = r1\<lparr>remaining := drop (i + 1) argv\<rparr>"
      unfolding g[OF h1 h2 h3] by (auto split: sum.splits)
    from finish_Inr[OF f] r2 show ?thesis by simp
  qed
  from a b g h parse_loop_separator show ?thesis by blast
qed

theorem separator_stops_scan_witness:
  "parse_loop example_parser [''in.txt'', ''--'', ''--nope''] 1 1 new_ParsedArgs Map.empty =
     Inr (new_ParsedArgs\<lparr>remaining := [''--nope'']\<rparr>, Map.empty) \<and>
   (\<exists>r. parse example_parser [''in.txt'', ''e1'', ''--'', ''-x'', ''--y''] = Inr r \<and>
        remaining r = [''-x'', ''--y''] \<and>
        args r ''input'' = Some (VStr ''in.txt'') \<and>
        args r ''extra'' = Some (VList [VStr ''e1''])) \<and>
   (\<exists>r. parse example_parser [''--'', ''-x'', ''--y''] = Inr r \<and> remaining r = [''-x'', ''--y''])"
proof -
  note t = separator_stops_scan[where S = example_parser]
  have 1: "parse_loop example_parser [''in.txt'', ''--'', ''--nope''] 1 1 new_ParsedArgs Map.empty =
     Inr (new_ParsedArgs\<lparr>remaining := [''--nope'']\<rparr>, Map.empty)"
    using t[where i = 1 and argv = "[''in.txt'', ''--'', ''--nope'']"] by simp
  let ?argv = "[''in.txt'', ''e1'', ''--'', ''-x'', ''--y'']"
  define r where "r = (apply_defaults example_parser new_ParsedArgs)
      \<lparr>args := (args (apply_defaults example_parser new_ParsedArgs))(''input'' \<mapsto> VStr ''in.txt'')\<rparr>"
  have sc: "scan_steps (Suc (Suc 0)) example_parser ?argv 0 0
      (apply_defaults example_parser new_ParsedArgs) Map.empty =
      Some (2, 1, r, [''extra'' \<mapsto> [VStr ''e1'']])"
    unfolding r_def
    by (simp add: schema_defs parse_step_def positional_token_def startswith_def py_str_def
        collect_def Let_def)
  obtain q where q: "parse example_parser ?argv = Inr q"
    by (cases "parse example_parser ?argv") (simp_all add: schema_defs parse_defs)
  have "remaining q = [''-x'', ''--y''] \<and> args q = args (flush r [''extra'' \<mapsto> [VStr ''e1'']])"
    using t[where n = "Suc (Suc 0)" and argv = ?argv and i = 2 and p = 1 and r = r
        and c = "[''extra'' \<mapsto> [VStr ''e1'']]" and ?r2.0 = q] sc q
    by simp
  then have "remaining q = [''-x'', ''--y'']" "args q ''input'' = Some (VStr ''in.txt'')"
    "args q ''extra'' = Some (VList [VStr ''e1''])"
    by (simp_all add: flush_def r_def)
  with q have 2: "\<exists>r. parse example_parser ?argv = Inr r \<and>
        remaining r = [''-x'', ''--y''] \<and>
        args r ''input'' = Some (VStr ''in.txt'') \<and>
        args r ''extra'' = Some (VList [VStr ''e1''])"
    by blast
  obtain r0 where r0: "parse example_parser [] = Inr r0"
    using example_parse_empty by blast
  have "parse example_parser [''--'', ''-x'', ''--y''] = Inr (r0\<lparr>remaining := [''-x'', ''--y'']\<rparr>)"
    using t[where rest = "[''-x'', ''--y'']"] r0 by simp
  with 1 2 show ?thesis by simp
qed

subsection \<open>C9: positional values\<close>






subsection \<open>C5: short clusters\<close>

lemma drop_enumerate:
  "j < length cs \<Longrightarrow> drop j (enumerate 0 cs) = (j, cs ! j) # drop (j + 1) (enumerate 0 cs)"
  by (simp add: Cons_nth_drop_Suc[symmetric] nth_enumerate_eq)

lemma parse_loop_cluster:
  assumes "i < length argv" and "argv ! i = CHR ''-'' # cs" and "cs \<noteq> []" and "hd cs \<noteq> CHR ''-''"
  shows "parse_loop S argv i p r c =
           (case short_cluster S argv (argv ! i) (enumerate 0 cs) i r c of
              Inl e \<Rightarrow> Inl e
            | Inr (i', r', c') \<Rightarrow> parse_loop S argv (i' + 1) p r' c')"
proof -
  from assms(2-4) have n1: "argv ! i \<noteq> ''--''" and n2: "\<not> startswith (argv ! i) ''--''"
    and n3: "startswith (argv ! i) ''-''" and n4: "1 < length (argv ! i)"
    by (cases cs; auto simp: startswith_def)+
  show ?thesis
    using assms(1) n1 n2 n3 n4 assms(2)
    by (simp add: parse_loop.simps[of S argv i] parse_step_def split: sum.splits prod.splits)
qed

lemma abc_run:
  "\<exists>r. parse abc_parser [''-abc'', ''val''] = Inr r \<and>
        args r ''a'' = Some (VBool True) \<and> args r ''b'' = Some (VBool True) \<and>
        args r ''c'' = Some (VStr ''val'') \<and> remaining r = []"
  by (simp add: abc_parser_def schema_defs parse_defs)

lemma abc_fail:
  "parse abc_parser [''-acb'', ''val''] = Inl (ArgError (OptionRequiresValue ''c''))"
  by (simp add: abc_parser_def schema_defs parse_defs)

text \<open>
  Claim C5 says that a value flag at the end of a cluster consumes the next token as its
  value. With the \<^verbatim>\<open>nargs="?"\<close> flag \<^verbatim>\<open>c\<close> and the input \<^verbatim>\<open>["-c", "-a"]\<close> it does
  not: the flag takes its default \<^verbatim>\<open>auto\<close>, the index stays, and \<^verbatim>\<open>-a\<close> is then
  scanned as a cluster of its own, which sets \<^verbatim>\<open>a\<close>.
\<close>

theorem cluster_value_flag_keeps_next_token:
  "find_arg_short color_parser ''c'' = Some color_flag \<and>
   \<not> no_value_action color_flag \<and>
   short_cluster color_parser [''-c'', ''-a''] ''-c'' (enumerate 0 ''c'') 0
       new_ParsedArgs Map.empty =
     Inr (0, new_ParsedArgs\<lparr>args := [''color'' \<mapsto> VStr ''auto'']\<rparr>, Map.empty) \<and>
   \<not> isl (parse color_parser [''-c'', ''-a'']) \<and>
   args (projr (parse color_parser [''-c'', ''-a''])) ''color'' = Some (VStr ''auto'') \<and>
   args (projr (parse color_parser [''-c'', ''-a''])) ''a'' = Some (VBool True)"
  by (simp add: color_parser_def color_flag_def schema_defs parse_defs)

text \<open>
  Claim C5, amended. The characters of a cluster \<^verbatim>\<open>-cs\<close> are handled from left to
  right. Where the loop stands at position \<open>j\<close> and the character is the short alias of
  the flag \<open>a\<close>: a store-true, store-false or count flag is stored at once without a
  value (\<open>True\<close>, \<open>False\<close>, the destination's value plus one) and the loop goes on, so
  such flags can be clustered; a flag that needs a value is accepted only at the last
  position, where its value is resolved as for a long flag without inline value (the next
  token is consumed, except that a \<^verbatim>\<open>nargs="?"\<close> flag takes its default when there is no
  next token or it starts with \<^verbatim>\<open>-\<close>, and \<^verbatim>\<open>ArgError\<close> is raised when a needed next
  token is missing); at any other position \<^verbatim>\<open>ArgError\<close> (option requires a value) is
  raised.
\<close>

theorem short_cluster_rules:
  assumes "arg = CHR ''-'' # cs" and "j < length cs" and "find_arg_short S [cs ! j] = Some a"
  shows "short_cluster S argv arg (drop j (enumerate 0 cs)) i r c =
           (if no_value_action a then
              (case store_value r a VNone c of
                 Inl e \<Rightarrow> Inl e
               | Inr (r', c') \<Rightarrow>
                   short_cluster S argv arg (drop (j + 1) (enumerate 0 cs)) i r' c')
            else if j + 1 = length cs then
              (case process_arg a argv i None of
                 Inl e \<Rightarrow> Inl e
               | Inr (i', v) \<Rightarrow>
                   (case store_value r a v c of
                      Inl e \<Rightarrow> Inl e
                    | Inr (r', c') \<Rightarrow> Inr (i', r', c')))
            else Inl (ArgError (OptionRequiresValue [cs ! j]))) \<and>
         (action a = ''store_true'' \<longrightarrow>
            store_value r a VNone c = Inr (r\<lparr>args := (args r)(dest_of a \<mapsto> VBool True)\<rparr>, c)) \<and>
         (action a = ''store_false'' \<longrightarrow>
            store_value r a VNone c = Inr (r\<lparr>args := (args r)(dest_of a \<mapsto> VBool False)\<rparr>, c)) \<and>
         (action a = ''count'' \<longrightarrow>
            store_value r a VNone c =
              (case py_add_one (dict_get_or (args r) (dest_of a) (VInt 0)) of
                 Inl e \<Rightarrow> Inl e
               | Inr k \<Rightarrow> Inr (r\<lparr>args := (args r)(dest_of a \<mapsto> k)\<rparr>, c))) \<and>
         (\<not> no_value_action a \<longrightarrow>
            process_arg a argv i None =
              (if Arg.nargs a = ''?'' \<and>
                  (length argv \<le> i + 1 \<or> startswith (argv ! (i + 1)) ''-'')
               then Inr (i, Arg.default a)
               else if length argv \<le> i + 1
               then Inl (ArgError (ArgumentRequiresValue (Arg.name a)))
               else case convert (argv ! (i + 1)) (Arg.type a) of
                      Inl e \<Rightarrow> Inl e
                    | Inr v \<Rightarrow> Inr (i + 1, v))) \<and>
         (i < length argv \<and> argv ! i = arg \<and> hd cs \<noteq> CHR ''-'' \<longrightarrow>
            parse_loop S argv i p r c =
              (case short_cluster S argv arg (enumerate 0 cs) i r c of
                 Inl e \<Rightarrow> Inl e
               | Inr (i', r', c') \<Rightarrow> parse_loop S argv (i' + 1) p r' c'))"
proof -
  have last: "(j = length arg - 2) = (j + 1 = length cs)"
    using assms(1,2) by auto
  have 1: "short_cluster S argv arg (drop j (enumerate 0 cs)) i r c =
           (if no_value_action a then
              (case store_value r a VNone c of
                 Inl e \<Rightarrow> Inl e
               | Inr (r', c') \<Rightarrow>
                   short_cluster S argv arg (drop (j + 1) (enumerate 0 cs)) i r' c')
            else if j + 1 = length cs then
              (case process_arg a argv i None of
                 Inl e \<Rightarrow> Inl e
               | Inr (i', v) \<Rightarrow>
                   (case store_value r a v c of
                      Inl e \<Rightarrow> Inl e
                    | Inr (r', c') \<Rightarrow> Inr (i', r', c')))
            else Inl (ArgError (OptionRequiresValue [cs ! j])))"
  proof (cases "j + 1 = length cs")
    case True
    then have e: "drop (j + 1) (enumerate 0 cs) = []" by simp
    show ?thesis
      unfolding drop_enumerate[OF assms(2)] e
      using assms(3) last True by (simp split: sum.splits prod.splits)
  next
    case False
    show ?thesis
      unfolding drop_enumerate[OF assms(2)]
      using assms(3) last False by (simp split: sum.splits prod.splits)
  qed
  have 2: "action a = ''store_true'' \<Longrightarrow>
            store_value r a VNone c = Inr (r\<lparr>args := (args r)(dest_of a \<mapsto> VBool True)\<rparr>, c)"
    by (simp add: store_value_def)
  have 3: "action a = ''store_false'' \<Longrightarrow>
            store_value r a VNone c = Inr (r\<lparr>args := (args r)(dest_of a \<mapsto> VBool False)\<rparr>, c)"
    by (simp add: store_value_def)
  have 4: "action a = ''count'' \<Longrightarrow>
            store_value r a VNone c =
              (case py_add_one (dict_get_or (args r) (dest_of a) (VInt 0)) of
                 Inl e \<Rightarrow> Inl e
               | Inr k \<Rightarrow> Inr (r\<lparr>args := (args r)(dest_of a \<mapsto> k)\<rparr>, c))"
    by (simp add: store_value_def Let_def)
  have 5: "process_arg a argv i None =
              (if Arg.nargs a = ''?'' \<and>
                  (length argv \<le> i + 1 \<or> startswith (argv ! (i + 1)) ''-'')
               then Inr (i, Arg.default a)
               else if length argv \<le> i + 1
               then Inl (ArgError (ArgumentRequiresValue (Arg.name a)))
               else case convert (argv ! (i + 1)) (Arg.type a) of
                      Inl e \<Rightarrow> Inl e
                    | Inr v \<Rightarrow> Inr (i + 1, v))"
    if "\<not> no_value_action a"
    using that by (simp add: process_arg_def)
  have 6: "parse_loop S argv i p r c =
              (case short_cluster S argv arg (enumerate 0 cs) i r c of
                 Inl e \<Rightarrow> Inl e
               | Inr (i', r', c') \<Rightarrow> parse_loop S argv (i' + 1) p r' c')"
    if "i < length argv" "argv ! i = arg" "hd cs \<noteq> CHR ''-''"
  proof -
    from assms(2) have "cs \<noteq> []" by auto
    with parse_loop_cluster[of i argv cs S p r c] that assms(1) show ?thesis by simp
  qed
  from 1 2 3 4 5 6 show ?thesis by blast
qed

theorem short_cluster_rules_witness:
  "short_cluster abc_parser [''-acb'', ''val''] ''-acb'' (drop 1 (enumerate 0 ''acb'')) 0
       new_ParsedArgs Map.empty = Inl (ArgError (OptionRequiresValue ''c'')) \<and>
   short_cluster abc_parser [''-abc'', ''val''] ''-abc'' (drop 2 (enumerate 0 ''abc'')) 0
       new_ParsedArgs Map.empty =
     Inr (1, new_ParsedArgs\<lparr>args := [''c'' \<mapsto> VStr ''val'']\<rparr>, Map.empty) \<and>
   parse abc_parser [''-acb'', ''val''] = Inl (ArgError (OptionRequiresValue ''c'')) \<and>
   (\<exists>r. parse abc_parser [''-abc'', ''val''] = Inr r \<and>
        args r ''a'' = Some (VBool True) \<and> args r ''b'' = Some (VBool True) \<and>
        args r ''c'' = Some (VStr ''val'') \<and> remaining r = [])"
proof -
  have f: "find_arg_short abc_parser ''c'' = Some (new_Arg ''c'' ''c'')"
    by (simp add: abc_parser_def schema_defs find_arg_short_def)
  have nv: "\<not> no_value_action (new_Arg ''c'' ''c'')"
    by (simp add: new_Arg_def no_value_action_def)
  have 1: "short_cluster abc_parser [''-acb'', ''val''] ''-acb'' (drop 1 (enumerate 0 ''acb'')) 0
       new_ParsedArgs Map.empty = Inl (ArgError (OptionRequiresValue ''c''))"
    using short_cluster_rules[where arg = "''-acb''" and cs = "''acb''" and j = 1
        and S = abc_parser and a = "new_Arg ''c'' ''c''" and argv = "[''-acb'', ''val'']"
        and i = 0 and r = new_ParsedArgs and c = Map.empty, THEN conjunct1] f nv
    by simp
  have pa: "process_arg (new_Arg ''c'' ''c'') [''-abc'', ''val''] 0 None = Inr (1, VStr ''val'')"
    using short_cluster_rules[where arg = "''-abc''" and cs = "''abc''" and j = 2
        and S = abc_parser and a = "new_Arg ''c'' ''c''" and argv = "[''-abc'', ''val'']"
        and i = 0] f nv
    by (simp add: new_Arg_def py_str_def startswith_def)
  have st: "store_value new_ParsedArgs (new_Arg ''c'' ''c'') (VStr ''val'') Map.empty =
      Inr (new_ParsedArgs\<lparr>args := [''c'' \<mapsto> VStr ''val'']\<rparr>, Map.empty)"
    by (simp add: store_value_def new_Arg_def dest_of_def new_ParsedArgs_def)
  have 2: "short_cluster abc_parser [''-abc'', ''val''] ''-abc'' (drop 2 (enumerate 0 ''abc'')) 0
       new_ParsedArgs Map.empty =
     Inr (1, new_ParsedArgs\<lparr>args := [''c'' \<mapsto> VStr ''val'']\<rparr>, Map.empty)"
    using short_cluster_rules[where arg = "''-abc''" and cs = "''abc''" and j = 2
        and S = abc_parser and a = "new_Arg ''c'' ''c''" and argv = "[''-abc'', ''val'']"
        and i = 0 and r = new_ParsedArgs and c = Map.empty, THEN conjunct1] f nv
    by (simp add: pa st)
  from 1 2 abc_fail abc_run show ?thesis by blast
qed

subsection \<open>C10: an inline value given to a flag that takes none\<close>

lemma process_arg_agree:
  assumes "length argv = length argv'" and "argv ! (i + 1) = argv' ! (i + 1)"
  shows "process_arg a argv i v = process_arg a argv' i v"
  using assms by (auto simp: process_arg_def split: option.splits)

lemma short_cluster_agree:
  assumes "length argv = length argv'" and "\<forall>k>i0. argv ! k = argv' ! k" and "i0 \<le> i"
  shows "short_cluster S argv arg cs i r c = short_cluster S argv' arg cs i r c"
  using assms(3)
proof (induction cs arbitrary: i r c)
  case Nil
  then show ?case by simp
next
  case (Cons jc cs)
  obtain j ch where jc: "jc = (j, ch)" by (cases jc)
  have pa: "process_arg a argv i v = process_arg a argv' i v" for a v
    using assms(1,2) Cons.prems by (intro process_arg_agree) auto
  have ih: "short_cluster S argv arg cs i' r' c' = short_cluster S argv' arg cs i' r' c'"
    if "i \<le> i'" for i' r' c'
    using Cons.IH[of i' r' c'] that Cons.prems by simp
  show ?case
    unfolding jc
    by (auto simp: pa ih split: option.splits sum.splits prod.splits
        dest!: process_arg_index[where argv = argv'])
qed

lemma parse_step_agree:
  assumes "length argv = length argv'" and "\<forall>k\<ge>i. argv ! k = argv' ! k"
  shows "parse_step S argv i p r c = parse_step S argv' i p r c"
proof -
  have e: "argv ! i = argv' ! i" using assms(2) by simp
  have pa: "process_arg a argv i v = process_arg a argv' i v" for a v
    using assms by (intro process_arg_agree) auto
  have lf: "long_flag S argv i r c = long_flag S argv' i r c"
    by (auto simp: long_flag_def e pa Let_def split: prod.splits option.splits)
  have sc: "short_cluster S argv arg cs i r c = short_cluster S argv' arg cs i r c" for arg cs
    using assms by (intro short_cluster_agree[where ?i0.0 = i]) auto
  show ?thesis
    by (simp add: parse_step_def e lf sc Let_def)
qed

lemma parse_loop_agree:
  assumes "length argv = length argv'" and "\<forall>k\<ge>i0. argv ! k = argv' ! k" and "i0 \<le> i"
  shows "parse_loop S argv i p r c = parse_loop S argv' i p r c"
  using assms(3)
proof (induction "length argv - i" arbitrary: i p r c rule: less_induct)
  case less
  have len: "length argv = length argv'" by fact
  have ag: "\<forall>k\<ge>i. argv ! k = argv' ! k" using assms(2) less.prems by auto
  have st: "parse_step S argv i p r c = parse_step S argv' i p r c"
    using len ag by (rule parse_step_agree)
  have dr: "drop (i + 1) argv = drop (i + 1) argv'"
    using len ag by (intro nth_equalityI) auto
  show ?case
  proof (cases "i < length argv \<and> argv ! i \<noteq> ''--''")
    case False
    then show ?thesis
      using len ag dr by (auto simp: parse_loop.simps[of S argv i] parse_loop.simps[of S argv' i])
  next
    case True
    then have a: "i < length argv" and b: "argv ! i \<noteq> ''--''" by auto
    have b': "argv' ! i \<noteq> ''--''" using b ag by auto
    show ?thesis
    proof (cases "parse_step S argv i p r c")
      case (Inl e)
      then show ?thesis
        using a b b' len st
        by (simp add: parse_loop.simps[of S argv i] parse_loop.simps[of S argv' i])
    next
      case (Inr x)
      obtain i' p' r' c' where x: "x = (i', p', r', c')" by (cases x)
      have ii: "i \<le> i'" using Inr x by (auto dest: parse_step_index)
      have ih: "parse_loop S argv (i' + 1) p' r' c' = parse_loop S argv' (i' + 1) p' r' c'"
        using a ii less.prems by (intro less.hyps) auto
      have st': "parse_step S argv' i p r c = Inr (i', p', r', c')"
        using st Inr x by simp
      have L: "parse_loop S argv i p r c = parse_loop S argv (i' + 1) p' r' c'"
        using a b Inr x by (simp add: parse_loop.simps[of S argv i])
      have R: "parse_loop S argv' i p r c = parse_loop S argv' (i' + 1) p' r' c'"
        using a b' len st' by (simp add: parse_loop.simps[of S argv' i])
      show ?thesis unfolding L R by (rule ih)
    qed
  qed
qed

lemma parse_loop_long_inline_no_value:
  assumes "i < length argv" and "argv ! i = ''--'' @ n @ CHR ''='' # v"
    and "CHR ''='' \<notin> set n" and "find_arg S n = Some a" and "no_value_action a"
  shows "parse_loop S argv i p r c =
           (case store_value r a VNone c of
              Inl e \<Rightarrow> Inl e
            | Inr (r', c') \<Rightarrow> parse_loop S argv (i + 1) p r' c')"
proof -
  have nd: "argv ! i \<noteq> ''--''" using assms(2) by simp
  have sw: "startswith (argv ! i) ''--''" using assms(2) by (simp add: startswith_def)
  have pa: "process_arg a argv i (Some v) = Inr (i, VNone)"
    using assms(5) by (simp add: process_arg_def)
  show ?thesis
    using assms(1) nd sw long_flag_inline[OF assms(2,3,4), of r c]
    by (simp add: parse_loop.simps[of S argv i] parse_step_def pa
        split: sum.splits prod.splits)
qed

lemma example_verbose_inline:
  "\<exists>r. parse example_parser [''--verbose=3'', ''--dry-run=no''] = Inr r \<and>
       args r ''verbose'' = Some (VInt 1) \<and> args r ''dry-run'' = Some (VBool True)"
  by (simp add: schema_defs parse_defs)

text \<open>
  Claim C10 says that \<^verbatim>\<open>--name=value\<close> never fails for a store-true, store-false or
  count flag. Where the count flag \<^verbatim>\<open>--verbose\<close> shares its destination with the
  flag \<^verbatim>\<open>--level\<close>, declared after it, the defaults leave \<^verbatim>\<open>None\<close> under the
  destination, and \<^verbatim>\<open>--verbose=3\<close> raises \<open>TypeError\<close> from \<^verbatim>\<open>None + 1\<close>.
\<close>

theorem count_with_inline_value_fails:
  "find_arg level_parser ''verbose'' =
     Some ((new_Arg ''verbose'' ''v'')\<lparr>action := ''count'', dest := ''level''\<rparr>) \<and>
   parse level_parser [''--verbose=3''] = Inl TypeError"
  by (simp add: level_parser_def schema_defs parse_defs)

text \<open>
  Claim C10, amended. A scanned token \<^verbatim>\<open>--name=value\<close> whose flag has the action
  store-true, store-false or count is handled by storing with no value at the same index:
  the inline value is not used, and the scan goes on as it does after a bare
  \<^verbatim>\<open>--name\<close> (for a non-empty name). Store-true writes \<open>True\<close> and store-false
  writes \<open>False\<close>, neither can fail; count adds one to the destination's current value
  (\<open>0\<close> for a missing key), which gives the next integer whenever that value is an
  integer.
\<close>

theorem inline_value_of_no_value_flag_ignored:
  assumes "i < length argv" and "argv ! i = ''--'' @ n @ CHR ''='' # v"
    and "CHR ''='' \<notin> set n" and "find_arg S n = Some a" and "no_value_action a"
  shows "parse_loop S argv i p r c =
           (case store_value r a VNone c of
              Inl e \<Rightarrow> Inl e
            | Inr (r', c') \<Rightarrow> parse_loop S argv (i + 1) p r' c') \<and>
         (n \<noteq> [] \<longrightarrow>
            parse_loop S argv i p r c = parse_loop S (argv[i := ''--'' @ n]) i p r c) \<and>
         store_value r a VNone c =
           (if action a = ''store_true''
            then Inr (r\<lparr>args := (args r)(dest_of a \<mapsto> VBool True)\<rparr>, c)
            else if action a = ''store_false''
            then Inr (r\<lparr>args := (args r)(dest_of a \<mapsto> VBool False)\<rparr>, c)
            else case py_add_one (dict_get_or (args r) (dest_of a) (VInt 0)) of
                   Inl e \<Rightarrow> Inl e
                 | Inr k \<Rightarrow> Inr (r\<lparr>args := (args r)(dest_of a \<mapsto> k)\<rparr>, c)) \<and>
         (action a = ''count'' \<and> dict_get_or (args r) (dest_of a) (VInt 0) = VInt m \<longrightarrow>
            store_value r a VNone c =
              Inr (r\<lparr>args := (args r)(dest_of a \<mapsto> VInt (m + 1))\<rparr>, c))"
proof -
  let ?argv' = "argv[i := ''--'' @ n]"
  have 1: "parse_loop S argv i p r c =
           (case store_value r a VNone c of
              Inl e \<Rightarrow> Inl e
            | Inr (r', c') \<Rightarrow> parse_loop S argv (i + 1) p r' c')"
    using assms by (rule parse_loop_long_inline_no_value)
  have 2: "parse_loop S argv i p r c = parse_loop S ?argv' i p r c" if n: "n \<noteq> []"
  proof -
    have pa: "process_arg a ?argv' i None = Inr (i, VNone)"
      using assms(5) by (simp add: process_arg_def)
    have "parse_loop S ?argv' i p r c =
           (case process_arg a ?argv' i None of
              Inl e \<Rightarrow> Inl e
            | Inr (i', v) \<Rightarrow>
                (case store_value r a v c of
                   Inl e \<Rightarrow> Inl e
                 | Inr (r', c') \<Rightarrow> parse_loop S ?argv' (i' + 1) p r' c'))"
      using assms(1,3,4) n by (intro parse_loop_long_bare) auto
    then have "parse_loop S ?argv' i p r c =
           (case store_value r a VNone c of
              Inl e \<Rightarrow> Inl e
            | Inr (r', c') \<Rightarrow> parse_loop S ?argv' (i + 1) p r' c')"
      unfolding pa by simp
    moreover have "parse_loop S argv (i + 1) p r' c' = parse_loop S ?argv' (i + 1) p r' c'"
      for r' c'
      by (rule parse_loop_agree[where ?i0.0 = "i + 1"]) auto
    ultimately show ?thesis unfolding 1 by (auto split: sum.splits prod.splits)
  qed
  have 3: "store_value r a VNone c =
           (if action a = ''store_true''
            then Inr (r\<lparr>args := (args r)(dest_of a \<mapsto> VBool True)\<rparr>, c)
            else if action a = ''store_false''
            then Inr (r\<lparr>args := (args r)(dest_of a \<mapsto> VBool False)\<rparr>, c)
            else case py_add_one (dict_get_or (args r) (dest_of a) (VInt 0)) of
                   Inl e \<Rightarrow> Inl e
                 | Inr k \<Rightarrow> Inr (r\<lparr>args := (args r)(dest_of a \<mapsto> k)\<rparr>, c))"
    using assms(5) by (auto simp: store_value_def no_value_action_def Let_def)
  have 4: "store_value r a VNone c =
              Inr (r\<lparr>args := (args r)(dest_of a \<mapsto> VInt (m + 1))\<rparr>, c)"
    if "action a = ''count''" "dict_get_or (args r) (dest_of a) (VInt 0) = VInt m"
    using that by (simp add: store_value_def Let_def)
  from 1 2 3 4 show ?thesis by blast
qed

theorem inline_value_of_no_value_flag_ignored_witness:
  "parse_loop example_parser [''--dry-run=no''] 0 0 new_ParsedArgs Map.empty =
     parse_loop example_parser [''--dry-run=no''] 1 0
       (new_ParsedArgs\<lparr>args := [''dry-run'' \<mapsto> VBool True]\<rparr>) Map.empty \<and>
   parse_loop example_parser [''--dry-run=no''] 0 0 new_ParsedArgs Map.empty =
     parse_loop example_parser [''--dry-run''] 0 0 new_ParsedArgs Map.empty \<and>
   (\<exists>r. parse example_parser [''--verbose=3'', ''--dry-run=no''] = Inr r \<and>
       args r ''verbose'' = Some (VInt 1) \<and> args r ''dry-run'' = Some (VBool True))"
proof -
  let ?a = "(new_Arg ''dry-run'' [])\<lparr>action := ''store_true'', Arg.help := ''Don't make any changes''\<rparr>"
  have f: "find_arg example_parser ''dry-run'' = Some ?a"
    by (simp add: schema_defs find_arg_def)
  have nv: "no_value_action ?a"
    by (simp add: no_value_action_def new_Arg_def)
  have tok: "[''--dry-run=no''] ! 0 = ''--'' @ ''dry-run'' @ CHR ''='' # ''no''"
    by simp
  note t = inline_value_of_no_value_flag_ignored[where argv = "[''--dry-run=no'']" and i = 0
      and S = example_parser and p = 0 and r = new_ParsedArgs and c = Map.empty,
      OF _ tok _ f nv]
  have st: "store_value new_ParsedArgs ?a VNone Map.empty =
      Inr (new_ParsedArgs\<lparr>args := [''dry-run'' \<mapsto> VBool True]\<rparr>, Map.empty)"
    using t[THEN conjunct2, THEN conjunct2, THEN conjunct1]
    by (simp add: new_Arg_def dest_of_def new_ParsedArgs_def)
  have 1: "parse_loop example_parser [''--dry-run=no''] 0 0 new_ParsedArgs Map.empty =
     parse_loop example_parser [''--dry-run=no''] 1 0
       (new_ParsedArgs\<lparr>args := [''dry-run'' \<mapsto> VBool True]\<rparr>) Map.empty"
    using t[THEN conjunct1] by (simp add: st)
  have 2: "parse_loop example_parser [''--dry-run=no''] 0 0 new_ParsedArgs Map.empty =
     parse_loop example_parser [''--dry-run''] 0 0 new_ParsedArgs Map.empty"
    using t[THEN conjunct2, THEN conjunct1] by simp
  from 1 2 example_verbose_inline show ?thesis by blast
qed

subsection \<open>C7: required flags\<close>

lemma validate_args_Inr:
  "(validate_args as r = Inr u) =
     (\<not> (\<exists>a \<in> set as. required a \<and> dict_get (args r) (dest_of a) = VNone))"
  by (induction as) auto

lemma validate_args_Inl:
  "validate_args as r = Inl e \<Longrightarrow>
     \<exists>a \<in> set as. required a \<and> dict_get (args r) (dest_of a) = VNone \<and>
       e = ArgError (RequiredArgument (Arg.name a))"
  by (induction as) (auto split: if_splits)

lemma parse_scanned:
  "parse S argv =
     (case scanned S argv of
        Inl e \<Rightarrow> Inl e
      | Inr r \<Rightarrow>
          if truthy (dict_get (args r) ''help'') then Inl (SystemExit 0)
          else (case validate S r of Inl e \<Rightarrow> Inl e | Inr u \<Rightarrow> Inr r))"
  by (simp add: parse_def scanned_def finish_def Let_def split: sum.splits prod.splits)

lemma scanned_empty: "scanned S [] = Inr (apply_defaults S new_ParsedArgs)"
  by (simp add: scanned_def parse_loop.simps flush_empty)

lemma required_defaults:
  "args (apply_defaults required_parser new_ParsedArgs) ''help'' = Some (VBool False) \<and>
   args (apply_defaults required_parser new_ParsedArgs) ''input'' = Some VNone"
  by (simp add: required_parser_def schema_defs apply_defaults_def default_value_def dest_of_def
      new_ParsedArgs_def)

lemma example_defaults:
  "args (apply_defaults example_parser new_ParsedArgs) ''help'' = Some (VBool False)"
  by (simp add: schema_defs apply_defaults_def default_value_def dest_of_def new_ParsedArgs_def)

text \<open>
  Claim C7 says that after the scan \<open>parse\<close> fails with the required-argument error
  if and only if a required flag still has a null destination. With the required flag
  \<^verbatim>\<open>--input\<close> and the input \<^verbatim>\<open>["--help"]\<close> the destination \<^verbatim>\<open>input\<close> is
  \<^verbatim>\<open>None\<close> after the scan, yet \<open>parse\<close> prints the help and exits with status 0: the
  help test comes before \<^verbatim>\<open>_validate\<close>.
\<close>

theorem help_exit_precedes_required_check:
  "required (arguments required_parser ! 1) \<and>
   \<not> isl (scanned required_parser [''--help'']) \<and>
   dict_get (args (projr (scanned required_parser [''--help''])))
     (dest_of (arguments required_parser ! 1)) = VNone \<and>
   parse required_parser [''--help''] = Inl (SystemExit 0)"
  by (simp add: required_parser_def scanned_def schema_defs parse_defs)

text \<open>
  Claim C7, amended. An exception of the scan is the outcome of \<open>parse\<close>. After the scan
  and the flush, a true value under \<^verbatim>\<open>help\<close> makes \<open>parse\<close> exit with status 0 without
  any validation. Otherwise \<open>parse\<close> fails with the required-argument error if and only
  if some flag marked required has a destination that is \<^verbatim>\<open>None\<close> or missing, and
  returns the result if and only if there is none. For the empty input the result after the
  scan is the map of defaults, so, the default under \<^verbatim>\<open>help\<close> not being true, \<open>parse\<close>
  returns the defaults when no flag is required and fails when a required flag has a null
  default. The check does not depend on the positionals.
\<close>

theorem required_checked_after_help:
  "(scanned S argv = Inl e \<longrightarrow> parse S argv = Inl e) \<and>
   (scanned S argv = Inr r \<and> truthy (dict_get (args r) ''help'') \<longrightarrow>
      parse S argv = Inl (SystemExit 0)) \<and>
   (scanned S argv = Inr r \<and> \<not> truthy (dict_get (args r) ''help'') \<longrightarrow>
      ((\<exists>n. parse S argv = Inl (ArgError (RequiredArgument n))) =
         (\<exists>a \<in> set (arguments S). required a \<and> dict_get (args r) (dest_of a) = VNone)) \<and>
      ((\<not> (\<exists>a \<in> set (arguments S). required a \<and> dict_get (args r) (dest_of a) = VNone)) =
         (parse S argv = Inr r))) \<and>
   scanned S [] = Inr (apply_defaults S new_ParsedArgs) \<and>
   (\<not> truthy (dict_get (args (apply_defaults S new_ParsedArgs)) ''help'') \<and>
    (\<forall>a \<in> set (arguments S). \<not> required a) \<longrightarrow>
      parse S [] = Inr (apply_defaults S new_ParsedArgs)) \<and>
   (\<not> truthy (dict_get (args (apply_defaults S new_ParsedArgs)) ''help'') \<and>
    b \<in> set (arguments S) \<and> required b \<and>
    dict_get (args (apply_defaults S new_ParsedArgs)) (dest_of b) = VNone \<longrightarrow>
      (\<exists>n. parse S [] = Inl (ArgError (RequiredArgument n)))) \<and>
   validate (S\<lparr>ArgParser.positionals := ps\<rparr>) r = validate S r"
proof -
  have 1: "parse S argv = Inl e" if "scanned S argv = Inl e"
    using that by (simp add: parse_scanned)
  have 2: "parse S argv = Inl (SystemExit 0)"
    if "scanned S argv = Inr r" "truthy (dict_get (args r) ''help'')"
    using that by (simp add: parse_scanned)
  have v: "parse S' argv' = (case validate S' r' of Inl e \<Rightarrow> Inl e | Inr u \<Rightarrow> Inr r')"
    if "scanned S' argv' = Inr r'" "\<not> truthy (dict_get (args r') ''help'')" for S' argv' r'
    using that by (simp add: parse_scanned)
  have 3: "(\<exists>n. parse S' argv' = Inl (ArgError (RequiredArgument n))) =
         (\<exists>a \<in> set (arguments S'). required a \<and> dict_get (args r') (dest_of a) = VNone)"
    and 4: "(\<not> (\<exists>a \<in> set (arguments S'). required a \<and> dict_get (args r') (dest_of a) = VNone)) =
         (parse S' argv' = Inr r')"
    if "scanned S' argv' = Inr r'" "\<not> truthy (dict_get (args r') ''help'')" for S' argv' r'
  proof -
    show "(\<exists>n. parse S' argv' = Inl (ArgError (RequiredArgument n))) =
         (\<exists>a \<in> set (arguments S'). required a \<and> dict_get (args r') (dest_of a) = VNone)"
    proof (cases "validate S' r'")
      case (Inl x)
      from validate_args_Inl[OF Inl[unfolded validate_def]] show ?thesis
        unfolding v[OF that] Inl by auto
    next
      case (Inr u)
      then show ?thesis
        unfolding v[OF that] using validate_args_Inr[of "arguments S'" r' u]
        by (simp add: validate_def)
    qed
    show "(\<not> (\<exists>a \<in> set (arguments S'). required a \<and> dict_get (args r') (dest_of a) = VNone)) =
         (parse S' argv' = Inr r')"
      unfolding v[OF that] validate_def
      using validate_args_Inr[of "arguments S'" r' "()"]
      by (cases "validate_args (arguments S') r'") auto
  qed
  have 5: "scanned S [] = Inr (apply_defaults S new_ParsedArgs)" by (rule scanned_empty)
  have 6: "parse S [] = Inr (apply_defaults S new_ParsedArgs)"
    if "\<not> truthy (dict_get (args (apply_defaults S new_ParsedArgs)) ''help'')"
      "\<forall>a \<in> set (arguments S). \<not> required a"
    using 4[OF 5 that(1)] that(2) by auto
  have 7: "\<exists>n. parse S [] = Inl (ArgError (RequiredArgument n))"
    if "\<not> truthy (dict_get (args (apply_defaults S new_ParsedArgs)) ''help'')"
      "b \<in> set (arguments S)" "required b"
      "dict_get (args (apply_defaults S new_ParsedArgs)) (dest_of b) = VNone"
    using 3[OF 5 that(1)] that(2,3,4) by auto
  have 8: "validate (S\<lparr>ArgParser.positionals := ps\<rparr>) r = validate S r"
    by (simp add: validate_def)
  from 1 2 3 4 5 6 7 8 show ?thesis by blast
qed

theorem required_checked_after_help_witness:
  "parse required_parser [] = Inl (ArgError (RequiredArgument ''input'')) \<and>
   parse example_parser [] = Inr (apply_defaults example_parser new_ParsedArgs) \<and>
   parse required_parser [''--help''] = Inl (SystemExit 0) \<and>
   args (apply_defaults example_parser new_ParsedArgs) ''input'' = None"
proof -
  note t = required_checked_after_help
  have h1: "\<not> truthy (dict_get (args (apply_defaults required_parser new_ParsedArgs)) ''help'')"
    and h2: "\<not> truthy (dict_get (args (apply_defaults example_parser new_ParsedArgs)) ''help'')"
    using required_defaults example_defaults by (simp_all add: dict_get_def)
  have m: "(new_Arg ''input'' ''i'')\<lparr>required := True\<rparr> \<in> set (arguments required_parser)"
    by (simp add: required_parser_def schema_defs)
  have "\<exists>n. parse required_parser [] = Inl (ArgError (RequiredArgument n))"
    using t[where S = required_parser and b = "(new_Arg ''input'' ''i'')\<lparr>required := True\<rparr>"]
      h1 m required_defaults
    by (simp add: dict_get_def dest_of_def new_Arg_def)
  moreover have "parse required_parser [] = Inl (ArgError (RequiredArgument n)) \<Longrightarrow> n = ''input''" for n
    by (simp add: required_parser_def schema_defs parse_defs)
  ultimately have 1: "parse required_parser [] = Inl (ArgError (RequiredArgument ''input''))"
    by blast
  have nr: "\<forall>a \<in> set (arguments example_parser). \<not> required a"
    by (simp add: schema_defs)
  have 2: "parse example_parser [] = Inr (apply_defaults example_parser new_ParsedArgs)"
    using t[where S = example_parser] h2 nr by blast
  have sc: "scanned required_parser [''--help''] =
      Inr (projr (scanned required_parser [''--help'']))"
    by (simp add: required_parser_def scanned_def schema_defs parse_defs)
  have "truthy (dict_get (args (projr (scanned required_parser [''--help'']))) ''help'')"
    by (simp add: required_parser_def scanned_def schema_defs parse_defs)
  with sc have 3: "parse required_parser [''--help''] = Inl (SystemExit 0)"
    using t[where S = required_parser and argv = "[''--help'']"
        and r = "projr (scanned required_parser [''--help''])"] by blast
  have 4: "args (apply_defaults example_parser new_ParsedArgs) ''input'' = None"
    by (simp add: schema_defs apply_defaults_def default_value_def dest_of_def new_ParsedArgs_def)
  from 1 2 3 4 show ?thesis by blast
qed

end
